theory Spec2Isabelle
  imports Main "HOL-Library.Sublist"
begin

section \<open>JavaScript values\<close>

text \<open>
  A JavaScript string is a sequence of UTF-16 code units; a code unit is modelled as a
  natural number, so that the line terminators and the white space of the language
  beyond ASCII are the ones the program sees. Literals of the source are written
  \<open>str ''...''\<close>.
\<close>

type_synonym jsstring = "nat list"

abbreviation (input) str :: "string \<Rightarrow> jsstring" where
  "str s \<equiv> map of_char s"

text \<open>
  The values that the TOML parser produces and that the schema library passes on: strings,
  booleans, numbers, dates, arrays and plain objects. An object is the list of its own
  properties in enumeration order. \<open>JNaN\<close> is the number \<open>NaN\<close> (the TOML float \<open>nan\<close>) and
  \<open>JNum\<close> any other number: of a number, only whether it is \<open>NaN\<close> and whether it is
  zero is ever looked at. \<open>JUndef\<close> is \<open>undefined\<close>, the value of a missing property.
\<close>

datatype js =
    JUndef
  | JBool bool
  | JNum int
  | JNaN
  | JStr jsstring
  | JDate jsstring
  | JArr "js list"
  | JObj "(jsstring \<times> js) list"

text \<open>Property read \<open>obj[key]\<close> on the property list of an object.\<close>

definition js_get :: "(jsstring \<times> js) list \<Rightarrow> jsstring \<Rightarrow> js" where
  "js_get kvs k = (case map_of kvs k of None \<Rightarrow> JUndef | Some v \<Rightarrow> v)"

text \<open>The test \<open>key in obj\<close> on the property list of an object.\<close>

definition js_in :: "jsstring \<Rightarrow> (jsstring \<times> js) list \<Rightarrow> bool" where
  "js_in k kvs = (k \<in> set (map fst kvs))"

text \<open>
  \<open>Map.prototype.set\<close>: an existing key keeps its position, a new key is appended.
\<close>

fun js_set :: "jsstring \<Rightarrow> 'v \<Rightarrow> (jsstring \<times> 'v) list \<Rightarrow> (jsstring \<times> 'v) list" where
  "js_set k v [] = [(k, v)]"
| "js_set k v ((k', v') # kvs) =
     (if k' = k then (k, v) # kvs else (k', v') # js_set k v kvs)"

text \<open>
  Property assignment \<open>obj[key] = value\<close> on an ordinary object. An object enumerates its
  array indices first, in ascending order, and then its other keys in the order of their
  creation; an array index is the canonical decimal string of an integer from \<open>0\<close> to
  \<open>2^32 - 2\<close>. So an existing key keeps its position, a new key that is an array index
  goes before the first key that is a greater index or no index, and any other new key
  goes to the end.
\<close>

definition array_index :: "jsstring \<Rightarrow> nat option" where
  "array_index k =
     (if k \<noteq> [] \<and> list_all (\<lambda>c. 48 \<le> c \<and> c \<le> 57) k \<and> (hd k \<noteq> 48 \<or> length k = 1)
         \<and> foldl (\<lambda>n c. 10 * n + (c - 48)) 0 k < 4294967295
      then Some (foldl (\<lambda>n c. 10 * n + (c - 48)) 0 k)
      else None)"

definition index_before :: "jsstring \<Rightarrow> jsstring \<Rightarrow> bool" where
  "index_before k k' =
     (case array_index k of
        None \<Rightarrow> False
      | Some n \<Rightarrow> (case array_index k' of None \<Rightarrow> True | Some n' \<Rightarrow> n < n'))"

fun obj_insert :: "jsstring \<Rightarrow> js \<Rightarrow> (jsstring \<times> js) list \<Rightarrow> (jsstring \<times> js) list" where
  "obj_insert k v [] = [(k, v)]"
| "obj_insert k v ((k', v') # kvs) =
     (if index_before k k' then (k, v) # (k', v') # kvs else (k', v') # obj_insert k v kvs)"

definition obj_set :: "jsstring \<Rightarrow> js \<Rightarrow> (jsstring \<times> js) list \<Rightarrow> (jsstring \<times> js) list" where
  "obj_set k v kvs = (if js_in k kvs then js_set k v kvs else obj_insert k v kvs)"

text \<open>
  Property read \<open>value.key\<close>, \<open>key in value\<close> and \<open>Object.entries(value)\<close> on a value. On
  arrays and dates, which have none of the keys the program asks for, the read is
  \<open>undefined\<close> and the test is false. On a primitive JavaScript raises a TypeError for
  \<open>in\<close>; the program applies these operations to the output of the schema only, which is
  a string or an object wherever they are applied (lemmas \<open>ManifestSchema_OK\<close> and
  \<open>DependencyDeclaration_shape\<close> below), and the model answers \<open>undefined\<close>, false and
  the empty list there.
\<close>

definition js_prop :: "js \<Rightarrow> jsstring \<Rightarrow> js" where
  "js_prop v k = (case v of JObj kvs \<Rightarrow> js_get kvs k | _ \<Rightarrow> JUndef)"

definition js_has :: "jsstring \<Rightarrow> js \<Rightarrow> bool" where
  "js_has k v = (case v of JObj kvs \<Rightarrow> js_in k kvs | _ \<Rightarrow> False)"

definition Object_entries :: "js \<Rightarrow> (jsstring \<times> js) list" where
  "Object_entries v = (case v of JObj kvs \<Rightarrow> kvs | _ \<Rightarrow> [])"

text \<open>
  The code units of a string value. It is applied to string values only: to the output of
  a string schema, and to the keys of an object.
\<close>

definition string_of :: "js \<Rightarrow> jsstring" where
  "string_of v = (case v of JStr s \<Rightarrow> s | _ \<Rightarrow> [])"

text \<open>Truthiness, as \<open>Boolean(value)\<close>, \<open>if (value)\<close> and \<open>value && ...\<close> use it.\<close>

fun truthy :: "js \<Rightarrow> bool" where
  "truthy JUndef = False"
| "truthy (JBool b) = b"
| "truthy (JNum n) = (n \<noteq> 0)"
| "truthy JNaN = False"
| "truthy (JStr s) = (s \<noteq> [])"
| "truthy (JDate d) = True"
| "truthy (JArr xs) = True"
| "truthy (JObj kvs) = True"

text \<open>\<open>Array.prototype.join\<close> on an array of strings.\<close>

fun join :: "jsstring \<Rightarrow> jsstring list \<Rightarrow> jsstring" where
  "join sep [] = []"
| "join sep [x] = x"
| "join sep (x # y # ys) = x @ sep @ join sep (y # ys)"

text \<open>
  \<open>String.prototype.trim\<close> removes white space and line terminators from both ends:
  TAB, LF, VT, FF, CR, SP, NBSP, the Unicode space separators, LS, PS and the BOM.
\<close>

definition isWhiteSpace :: "nat \<Rightarrow> bool" where
  "isWhiteSpace c =
     (c \<in> set [9, 10, 11, 12, 13, 32, 160, 5760, 8232, 8233, 8239, 8287, 12288, 65279]
      \<or> (8192 \<le> c \<and> c \<le> 8202))"

definition trim :: "jsstring \<Rightarrow> jsstring" where
  "trim s = rev (dropWhile isWhiteSpace (rev (dropWhile isWhiteSpace s)))"

text \<open>\<open>String.prototype.includes\<close>.\<close>

fun js_includes :: "jsstring \<Rightarrow> jsstring \<Rightarrow> bool" where
  "js_includes [] t = (t = [])"
| "js_includes (c # cs) t = (prefix t (c # cs) \<or> js_includes cs t)"

text \<open>A text between single quotes, for the messages of the source.\<close>

definition quoted :: "jsstring \<Rightarrow> jsstring" where
  "quoted s = [39] @ s @ [39]"

section \<open>Regular expressions\<close>

text \<open>
  The three patterns of the source are built from single characters, character classes,
  the dot, \<open>+\<close> on one of these, sequencing, \<open>?\<close> on a group and capturing groups, and
  all are anchored at both ends (\<open>/^...$/\<close>, no flags). The matcher is the backtracking
  one of the language: \<open>rx_run\<close> lists, in priority order (greedy first), every way the
  pattern matches a prefix of the input, as the captures and the rest of the input.
\<close>

datatype atom =
    Chr nat
  | Cls "(nat \<times> nat) list"
  | Dot

fun atom_ok :: "atom \<Rightarrow> nat \<Rightarrow> bool" where
  "atom_ok (Chr c) x = (x = c)"
| "atom_ok (Cls rs) x = list_ex (\<lambda>(lo, hi). lo \<le> x \<and> x \<le> hi) rs"
| "atom_ok Dot x = (x \<noteq> 10 \<and> x \<noteq> 13 \<and> x \<noteq> 8232 \<and> x \<noteq> 8233)"

datatype regex =
    One atom
  | Plus atom
  | Seq regex regex
  | Opt regex
  | Grp regex

type_synonym captures = "jsstring option list"

fun ngroups :: "regex \<Rightarrow> nat" where
  "ngroups (One a) = 0"
| "ngroups (Plus a) = 0"
| "ngroups (Seq r1 r2) = ngroups r1 + ngroups r2"
| "ngroups (Opt r) = ngroups r"
| "ngroups (Grp r) = Suc (ngroups r)"

text \<open>The inputs left after one or more characters of a class, the longest match first.\<close>

fun many1 :: "(nat \<Rightarrow> bool) \<Rightarrow> jsstring \<Rightarrow> jsstring list" where
  "many1 P [] = []"
| "many1 P (c # cs) = (if P c then many1 P cs @ [cs] else [])"

fun rx_run :: "regex \<Rightarrow> jsstring \<Rightarrow> (captures \<times> jsstring) list" where
  "rx_run (One a) s =
     (case s of [] \<Rightarrow> [] | c # cs \<Rightarrow> if atom_ok a c then [([], cs)] else [])"
| "rx_run (Plus a) s = map (\<lambda>rest. ([], rest)) (many1 (atom_ok a) s)"
| "rx_run (Seq r1 r2) s =
     concat (map (\<lambda>(c1, rest1). map (\<lambda>(c2, rest2). (c1 @ c2, rest2)) (rx_run r2 rest1))
                 (rx_run r1 s))"
| "rx_run (Opt r) s = rx_run r s @ [(replicate (ngroups r) None, s)]"
| "rx_run (Grp r) s =
     map (\<lambda>(c, rest). (Some (take (length s - length rest) s) # c, rest)) (rx_run r s)"

text \<open>
  \<open>RegExp.prototype.exec\<close> for the anchored pattern \<open>/^r$/\<close>: the first way to match that
  leaves no input, as the list of its capture groups (\<open>None\<close> for a group that took no
  part in the match); and \<open>RegExp.prototype.test\<close>.
\<close>

definition rx_exec :: "regex \<Rightarrow> jsstring \<Rightarrow> captures option" where
  "rx_exec r s = map_option fst (find (\<lambda>(c, rest). rest = []) (rx_run r s))"

definition rx_test :: "regex \<Rightarrow> jsstring \<Rightarrow> bool" where
  "rx_test r s = (rx_exec r s \<noteq> None)"

text \<open>
  \<open>String.prototype.match\<close> with such a pattern: the match array holds the whole match
  and then the groups. Element \<open>i\<close> of a match array reads \<open>undefined\<close> for a group that
  did not take part, and beyond the end of the array.
\<close>

definition str_match :: "jsstring \<Rightarrow> regex \<Rightarrow> captures option" where
  "str_match s r = map_option (\<lambda>caps. Some s # caps) (rx_exec r s)"

definition capture :: "captures \<Rightarrow> nat \<Rightarrow> js" where
  "capture m i =
     (if i < length m then (case m ! i of None \<Rightarrow> JUndef | Some s \<Rightarrow> JStr s)
      else JUndef)"

section \<open>The schema library\<close>

text \<open>
  The schemas of \<open>schema.ts\<close> are values of the Zod library (version 3, the one that
  \<open>zod-to-json-schema\<close> of \<open>scripts/generate-schema.js\<close> reads). The library is modelled
  as far as the schemas use it. A schema takes the path of the value in the document
  and the value, and returns a result and the issues it adds to the parse context, in
  the order it adds them. A result is \<open>OK\<close> (status valid), \<open>DIRTY\<close> (an issue was
  added, the value is still there, and the enclosing schemas go on) or \<open>INVALID\<close>
  (status aborted, no value).
\<close>

datatype ZodParsedType =
    zt_string | zt_nan | zt_number | zt_boolean | zt_date | zt_array | zt_object | zt_undefined

fun getParsedType :: "js \<Rightarrow> ZodParsedType" where
  "getParsedType JUndef = zt_undefined"
| "getParsedType (JBool b) = zt_boolean"
| "getParsedType (JNum n) = zt_number"
| "getParsedType JNaN = zt_nan"
| "getParsedType (JStr s) = zt_string"
| "getParsedType (JDate d) = zt_date"
| "getParsedType (JArr xs) = zt_array"
| "getParsedType (JObj kvs) = zt_object"

text \<open>
  The issue codes the schemas can raise, with the data the library's error map reads
  (the two parsed types, the literal, the keys, the minimum length).
  The issues below an \<open>invalid_union\<close> issue (its \<open>unionErrors\<close>) are left out: the program
  reads the path and the message of the top-level issues only.
\<close>

datatype ZodIssueCode =
    invalid_type ZodParsedType ZodParsedType
  | invalid_literal js
  | unrecognized_keys "jsstring list"
  | invalid_union
  | too_small nat
  | invalid_string
  | custom

text \<open>
  An issue: its code, its path, and the message the schema gave for it, if it gave one
  (otherwise the message comes from the library's error map).
\<close>

record ZodIssue =
  code :: ZodIssueCode
  path :: "jsstring list"
  custom_message :: "jsstring option"

datatype SyncParseReturnType = OK js | DIRTY js | INVALID

type_synonym ParseReturn = "SyncParseReturnType \<times> ZodIssue list"

type_synonym ZodType = "jsstring list \<Rightarrow> js \<Rightarrow> ParseReturn"

fun isValid :: "SyncParseReturnType \<Rightarrow> bool" where
  "isValid (OK v) = True"
| "isValid (DIRTY v) = False"
| "isValid INVALID = False"

fun isDirty :: "SyncParseReturnType \<Rightarrow> bool" where
  "isDirty (OK v) = False"
| "isDirty (DIRTY v) = True"
| "isDirty INVALID = False"

fun isAborted :: "SyncParseReturnType \<Rightarrow> bool" where
  "isAborted (OK v) = False"
| "isAborted (DIRTY v) = False"
| "isAborted INVALID = True"

fun result_value :: "SyncParseReturnType \<Rightarrow> js" where
  "result_value (OK v) = v"
| "result_value (DIRTY v) = v"
| "result_value INVALID = JUndef"

text \<open>A result from a status flag and a value.\<close>

definition mk_result :: "bool \<Rightarrow> js \<Rightarrow> SyncParseReturnType" where
  "mk_result is_dirty v = (if is_dirty then DIRTY v else OK v)"

subsection \<open>Strings, booleans, literals\<close>

text \<open>
  \<open>z.string()\<close> with its checks \<open>.min(n, message)\<close> and \<open>.regex(pattern, message)\<close>: a
  value that is not a string aborts; a failed check adds its issue and makes the result
  dirty, and the later checks still run.
\<close>

datatype ZodStringCheck =
    Min nat jsstring
  | Regex regex jsstring

fun string_check :: "jsstring list \<Rightarrow> jsstring \<Rightarrow> ZodStringCheck \<Rightarrow> ZodIssue list" where
  "string_check p s (Min n msg) =
     (if length s < n then [\<lparr>code = too_small n, path = p, custom_message = Some msg\<rparr>] else [])"
| "string_check p s (Regex r msg) =
     (if \<not> rx_test r s then [\<lparr>code = invalid_string, path = p, custom_message = Some msg\<rparr>] else [])"

definition z_string :: "ZodStringCheck list \<Rightarrow> ZodType" where
  "z_string checks p data =
     (case data of
        JStr s \<Rightarrow>
          (let issues = concat (map (string_check p s) checks)
           in (mk_result (issues \<noteq> []) data, issues))
      | _ \<Rightarrow>
          (INVALID,
           [\<lparr>code = invalid_type zt_string (getParsedType data), path = p, custom_message = None\<rparr>]))"

definition z_boolean :: ZodType where
  "z_boolean p data =
     (case data of
        JBool b \<Rightarrow> (OK data, [])
      | _ \<Rightarrow>
          (INVALID,
           [\<lparr>code = invalid_type zt_boolean (getParsedType data), path = p, custom_message = None\<rparr>]))"

text \<open>\<open>z.literal(value)\<close> for a string or boolean literal: strict equality.\<close>

definition z_literal :: "js \<Rightarrow> ZodType" where
  "z_literal lit p data =
     (if data \<noteq> lit
      then (INVALID, [\<lparr>code = invalid_literal lit, path = p, custom_message = None\<rparr>])
      else (OK data, []))"

subsection \<open>Effects, pipelines, optional values, defaults\<close>

text \<open>
  \<open>schema.transform(f)\<close>: the function is applied to a valid result of the schema; any
  other result is handed on. The one function transformed with is \<open>(s) => s.trim()\<close> on
  the output of \<open>z.string()\<close>, so it is given on strings.
\<close>

definition z_transform :: "ZodType \<Rightarrow> (jsstring \<Rightarrow> jsstring) \<Rightarrow> ZodType" where
  "z_transform schema f p data =
     (case schema p data of
        (OK (JStr s), issues) \<Rightarrow> (OK (JStr (f s)), issues)
      | base \<Rightarrow> base)"

text \<open>
  \<open>schema.refine(check, message)\<close>: an aborted result stays aborted; otherwise the check
  runs on the value (also on a dirty one), and a failed check adds its issue and makes
  the result dirty.
\<close>

definition z_refine :: "ZodType \<Rightarrow> (js \<Rightarrow> bool) \<Rightarrow> jsstring \<Rightarrow> ZodType" where
  "z_refine schema check msg p data =
     (case schema p data of
        (INVALID, issues) \<Rightarrow> (INVALID, issues)
      | (inner, issues) \<Rightarrow>
          (if check (result_value inner)
           then (inner, issues)
           else (DIRTY (result_value inner),
                 issues @ [\<lparr>code = custom, path = p, custom_message = Some msg\<rparr>])))"

text \<open>
  \<open>a.pipe(b)\<close>: an aborted result of \<open>a\<close> aborts, a dirty one is returned as it is, and a
  valid one is given to \<open>b\<close>.
\<close>

definition z_pipe :: "ZodType \<Rightarrow> ZodType \<Rightarrow> ZodType" where
  "z_pipe a b p data =
     (case a p data of
        (INVALID, issues) \<Rightarrow> (INVALID, issues)
      | (DIRTY v, issues) \<Rightarrow> (DIRTY v, issues)
      | (OK v, issues) \<Rightarrow> (case b p v of (res, issues') \<Rightarrow> (res, issues @ issues')))"

definition z_optional :: "ZodType \<Rightarrow> ZodType" where
  "z_optional schema p data =
     (if data = JUndef then (OK JUndef, []) else schema p data)"

definition z_default :: "ZodType \<Rightarrow> js \<Rightarrow> ZodType" where
  "z_default schema dflt p data =
     (if data = JUndef then schema p dflt else schema p data)"

subsection \<open>Objects, records, unions\<close>

text \<open>
  \<open>ParseStatus.mergeObjectSync\<close> builds the output object from the parsed pairs (the
  result for the key, the result for the value, and whether the key is set in the input):
  the first aborted key or value aborts the whole object; a dirty one makes it dirty; a
  key named \<open>__proto__\<close> is never set, and a key whose value is \<open>undefined\<close> is set only if
  the input has it. The keys are strings (a key of the shape, or the output of the key
  schema of a record on a string).
\<close>

type_synonym ParsePair = "SyncParseReturnType \<times> SyncParseReturnType \<times> bool"

fun mergeObjectLoop ::
  "bool \<Rightarrow> (jsstring \<times> js) list \<Rightarrow> ParsePair list \<Rightarrow> SyncParseReturnType" where
  "mergeObjectLoop is_dirty finalObject [] = mk_result is_dirty (JObj finalObject)"
| "mergeObjectLoop is_dirty finalObject ((key, val, alwaysSet) # pairs) =
     (if isAborted key then INVALID
      else if isAborted val then INVALID
      else mergeObjectLoop
             (is_dirty \<or> isDirty key \<or> isDirty val)
             (if result_value key \<noteq> JStr (str ''__proto__'')
                 \<and> (result_value val \<noteq> JUndef \<or> alwaysSet)
              then obj_set (string_of (result_value key)) (result_value val) finalObject
              else finalObject)
             pairs)"

definition mergeObjectSync :: "bool \<Rightarrow> ParsePair list \<Rightarrow> SyncParseReturnType" where
  "mergeObjectSync is_dirty pairs = mergeObjectLoop is_dirty [] pairs"

text \<open>
  \<open>z.object(shape).strict()\<close>: a value that is not a plain object aborts. Otherwise every
  key of the shape is parsed, in the order of the shape, on the property of that name
  (\<open>undefined\<close> when missing); then the keys of the input outside the shape, if any, add
  one \<open>unrecognized_keys\<close> issue and make the result dirty.
\<close>

definition z_object_strict :: "(jsstring \<times> ZodType) list \<Rightarrow> ZodType" where
  "z_object_strict shape p data =
     (case data of
        JObj kvs \<Rightarrow>
          (let shapeKeys = map fst shape;
               extraKeys = filter (\<lambda>key. key \<notin> set shapeKeys) (map fst kvs);
               parsed = map (\<lambda>(key, keyValidator).
                               (key, keyValidator (p @ [key]) (js_get kvs key))) shape;
               pairs = map (\<lambda>(key, res, issues). (OK (JStr key), res, js_in key kvs)) parsed;
               issues = concat (map (\<lambda>(key, res, issues). issues) parsed)
                        @ (if extraKeys \<noteq> []
                           then [\<lparr>code = unrecognized_keys extraKeys, path = p,
                                  custom_message = None\<rparr>]
                           else [])
           in (mergeObjectSync (extraKeys \<noteq> []) pairs, issues))
      | _ \<Rightarrow>
          (INVALID,
           [\<lparr>code = invalid_type zt_object (getParsedType data), path = p, custom_message = None\<rparr>]))"

text \<open>
  \<open>z.record(keyType, valueType)\<close>: for every key of the input, in order, the key schema
  parses the key and the value schema the value, both at the path of the key.
\<close>

definition z_record :: "ZodType \<Rightarrow> ZodType \<Rightarrow> ZodType" where
  "z_record keyType valueType p data =
     (case data of
        JObj kvs \<Rightarrow>
          (let parsed = map (\<lambda>key. (keyType (p @ [key]) (JStr key),
                                     valueType (p @ [key]) (js_get kvs key)))
                            (map fst kvs);
               pairs = map (\<lambda>((kres, kissues), (vres, vissues)). (kres, vres, True)) parsed;
               issues = concat (map (\<lambda>((kres, kissues), (vres, vissues)). kissues @ vissues)
                                    parsed)
           in (mergeObjectSync False pairs, issues))
      | _ \<Rightarrow>
          (INVALID,
           [\<lparr>code = invalid_type zt_object (getParsedType data), path = p, custom_message = None\<rparr>]))"

text \<open>
  \<open>z.union(options)\<close>: every option parses the value with an issue list of its own. The
  first valid result is returned; if there is none, the first dirty result is returned
  with its issues; if there is none either, the union aborts with one \<open>invalid_union\<close>
  issue.
\<close>

definition z_union :: "ZodType list \<Rightarrow> ZodType" where
  "z_union options p data =
     (let results = map (\<lambda>option. option p data) options
      in case find (\<lambda>(res, issues). isValid res) results of
           Some (res, issues) \<Rightarrow> (res, [])
         | None \<Rightarrow>
             (case find (\<lambda>(res, issues). isDirty res) results of
                Some (res, issues) \<Rightarrow> (res, issues)
              | None \<Rightarrow> (INVALID, [\<lparr>code = invalid_union, path = p, custom_message = None\<rparr>])))"

text \<open>
  \<open>schema.parse(data)\<close>: the value of a valid result, or else the thrown \<open>ZodError\<close>, as
  its list of issues.
\<close>

definition zod_parse :: "ZodType \<Rightarrow> js \<Rightarrow> ZodIssue list + js" where
  "zod_parse schema data =
     (case schema [] data of
        (OK v, issues) \<Rightarrow> Inr v
      | (res, issues) \<Rightarrow> Inl issues)"

section \<open>The schemas (schema.ts)\<close>

subsection \<open>Primitives\<close>

definition NonEmptyString :: ZodType where
  "NonEmptyString =
     z_pipe (z_transform (z_string []) trim)
            (z_string [Min 1 (str ''String cannot be empty'')])"

text \<open>
  The alias schema: the four refinements run on the trimmed string; \<open>[92]\<close> is the
  backslash.
\<close>

definition Alias :: ZodType where
  "Alias =
     z_pipe (z_transform (z_string []) trim)
       (z_refine
         (z_refine
           (z_refine
             (z_refine (z_string [Min 1 (str ''Alias cannot be empty'')])
                (\<lambda>s. \<not> js_includes (string_of s) (str ''/''))
                (str ''Alias cannot contain '' @ quoted (str ''/'')))
              (\<lambda>s. \<not> js_includes (string_of s) [92])
              (str ''Alias cannot contain '' @ quoted [92]))
            (\<lambda>s. \<not> js_includes (string_of s) (str ''.''))
            (str ''Alias cannot contain '' @ quoted (str ''.'')))
          (\<lambda>s. \<not> js_includes (string_of s) (str '':''))
          (str ''Alias cannot contain '' @ quoted (str '':'')))"

text \<open>The class \<open>[a-zA-Z0-9_.-]\<close> and the pattern \<open>/^[a-zA-Z0-9_.-]+\/[a-zA-Z0-9_.-]+$/\<close>.\<close>

definition gh_class :: atom where
  "gh_class = Cls [(of_char CHR ''a'', of_char CHR ''z''), (of_char CHR ''A'', of_char CHR ''Z''),
                   (of_char CHR ''0'', of_char CHR ''9''), (of_char CHR ''_'', of_char CHR ''_''),
                   (of_char CHR ''.'', of_char CHR ''.''), (of_char CHR ''-'', of_char CHR ''-'')]"

definition GithubRefPattern :: regex where
  "GithubRefPattern = Seq (Plus gh_class) (Seq (One (Chr (of_char CHR ''/''))) (Plus gh_class))"

definition GithubRef :: ZodType where
  "GithubRef =
     z_string [Regex GithubRefPattern (str ''Must be in format '' @ quoted (str ''owner/repo''))]"

definition AgentId_options :: "jsstring list" where
  "AgentId_options = [str ''claude-code'', str ''codex'', str ''opencode'']"

subsection \<open>Package section\<close>

definition PackageSchema :: ZodType where
  "PackageSchema =
     z_object_strict
       [(str ''description'', z_optional NonEmptyString),
        (str ''license'', z_optional NonEmptyString),
        (str ''name'', NonEmptyString),
        (str ''org'', z_optional NonEmptyString),
        (str ''version'', NonEmptyString)]"

subsection \<open>Agents section\<close>

definition AgentsSchema :: ZodType where
  "AgentsSchema = z_record (z_string []) z_boolean"

subsection \<open>Dependencies section\<close>

text \<open>
  The class \<open>[a-zA-Z0-9_-]\<close> and the pattern
  \<open>/^(@[a-zA-Z0-9_-]+\/)?[a-zA-Z0-9_-]+@.+$/\<close> of the registry shorthand.
\<close>

definition id_class :: atom where
  "id_class = Cls [(of_char CHR ''a'', of_char CHR ''z''), (of_char CHR ''A'', of_char CHR ''Z''),
                   (of_char CHR ''0'', of_char CHR ''9''), (of_char CHR ''_'', of_char CHR ''_''),
                   (of_char CHR ''-'', of_char CHR ''-'')]"

definition RegistryPattern :: regex where
  "RegistryPattern =
     Seq (Opt (Grp (Seq (One (Chr (of_char CHR ''@'')))
                   (Seq (Plus id_class) (One (Chr (of_char CHR ''/'')))))))
         (Seq (Plus id_class) (Seq (One (Chr (of_char CHR ''@''))) (Plus Dot)))"

definition RegistryDependency :: ZodType where
  "RegistryDependency =
     z_string [Regex RegistryPattern
                 (str ''Must be in format '' @ quoted (str ''[@org/]name@version''))]"

text \<open>The refinement of both git shapes: at most one of the three refs is truthy.\<close>

definition one_ref_at_most :: "js \<Rightarrow> bool" where
  "one_ref_at_most d =
     (let refs = length (filter truthy
                           [js_prop d (str ''tag''), js_prop d (str ''branch''),
                            js_prop d (str ''rev'')])
      in refs \<le> 1)"

definition one_ref_message :: jsstring where
  "one_ref_message = str ''Only one of 'tag', 'branch', or 'rev' can be specified''"

definition GithubDependency :: ZodType where
  "GithubDependency =
     z_refine
       (z_object_strict
          [(str ''branch'', z_optional NonEmptyString),
           (str ''gh'', GithubRef),
           (str ''path'', z_optional NonEmptyString),
           (str ''rev'', z_optional NonEmptyString),
           (str ''tag'', z_optional NonEmptyString)])
       one_ref_at_most one_ref_message"

definition GitDependency :: ZodType where
  "GitDependency =
     z_refine
       (z_object_strict
          [(str ''branch'', z_optional NonEmptyString),
           (str ''git'', NonEmptyString),
           (str ''path'', z_optional NonEmptyString),
           (str ''rev'', z_optional NonEmptyString),
           (str ''tag'', z_optional NonEmptyString)])
       one_ref_at_most one_ref_message"

definition LocalDependency :: ZodType where
  "LocalDependency = z_object_strict [(str ''path'', NonEmptyString)]"

definition ClaudePluginDependency :: ZodType where
  "ClaudePluginDependency =
     z_object_strict
       [(str ''marketplace'', NonEmptyString),
        (str ''plugin'', NonEmptyString),
        (str ''type'', z_literal (JStr (str ''claude-plugin'')))]"

definition DependencyDeclaration :: ZodType where
  "DependencyDeclaration =
     z_union [RegistryDependency, GithubDependency, GitDependency, LocalDependency,
              ClaudePluginDependency]"

definition DependenciesSchema :: ZodType where
  "DependenciesSchema = z_record Alias DependencyDeclaration"

subsection \<open>Exports section\<close>

definition ExportsSchema :: ZodType where
  "ExportsSchema =
     z_object_strict
       [(str ''auto_discover'',
         z_optional
           (z_object_strict
              [(str ''skills'',
                z_optional (z_union [NonEmptyString, z_literal (JBool False)]))]))]"

subsection \<open>Full manifest\<close>

definition ManifestSchema :: ZodType where
  "ManifestSchema =
     z_object_strict
       [(str ''agents'', z_default (z_optional AgentsSchema) (JObj [])),
        (str ''dependencies'', z_default (z_optional DependenciesSchema) (JObj [])),
        (str ''exports'', z_optional ExportsSchema),
        (str ''package'', z_optional PackageSchema)]"

section \<open>The parser (parse.ts)\<close>

subsection \<open>Error types\<close>

datatype ParseErrorType = invalid_toml | invalid_manifest | invalid_dependency

text \<open>
  A value thrown by the TOML parser is an \<open>Error\<close> with its message, or something else.
  The cause of a parse error is that value, or the \<open>ZodError\<close> with its issues.
\<close>

datatype thrown = ErrorInstance jsstring | NotAnError

datatype Cause = ThrownCause thrown | ZodErrorCause "ZodIssue list"

record ParseError =
  type :: ParseErrorType
  message :: jsstring
  cause :: "Cause option"

type_synonym 'a ParseResult = "ParseError + 'a"

subsection \<open>Validated types\<close>

text \<open>
  The fields hold the JavaScript values the parser puts there; an optional field that the
  object literal leaves out is \<open>None\<close>.
\<close>

datatype GitRefType = tag | branch | rev

record GitRef =
  ref_type :: GitRefType
  ref_value :: js

datatype ValidatedDependency =
    ValidatedRegistryDependency js "js option" js
  | ValidatedGithubDependency js "GitRef option" "js option"
  | ValidatedGitDependency js "GitRef option" "js option"
  | ValidatedLocalDependency js
  | ValidatedClaudePluginDependency js js

record ValidatedManifest =
  package :: "js option"
  agents :: "(jsstring \<times> js) list"
  dependencies :: "(jsstring \<times> ValidatedDependency) list"
  exports :: "js option"

subsection \<open>Dependency parsing\<close>

text \<open>The pattern \<open>/^(?:@([a-zA-Z0-9_-]+)\/)?([a-zA-Z0-9_-]+)@(.+)$/\<close>.\<close>

definition REGISTRY_PATTERN :: regex where
  "REGISTRY_PATTERN =
     Seq (Opt (Seq (One (Chr (of_char CHR ''@'')))
              (Seq (Grp (Plus id_class)) (One (Chr (of_char CHR ''/''))))))
         (Seq (Grp (Plus id_class)) (Seq (One (Chr (of_char CHR ''@''))) (Grp (Plus Dot))))"

text \<open>
  \<open>ValidatedRegistryDependency name org version\<close>; the \<open>org\<close> field is there when the first
  group is truthy.
\<close>

definition parseRegistryString :: "jsstring \<Rightarrow> ValidatedDependency option" where
  "parseRegistryString val =
     (case str_match val REGISTRY_PATTERN of
        None \<Rightarrow> None
      | Some m \<Rightarrow>
          (let org = capture m 1; name = capture m 2; version = capture m 3
           in Some (ValidatedRegistryDependency name
                      (if truthy org then Some org else None) version)))"

definition extractGitRef :: "js \<Rightarrow> GitRef option" where
  "extractGitRef dep =
     (if truthy (js_prop dep (str ''tag''))
      then Some \<lparr>ref_type = tag, ref_value = js_prop dep (str ''tag'')\<rparr>
      else if truthy (js_prop dep (str ''branch''))
      then Some \<lparr>ref_type = branch, ref_value = js_prop dep (str ''branch'')\<rparr>
      else if truthy (js_prop dep (str ''rev''))
      then Some \<lparr>ref_type = rev, ref_value = js_prop dep (str ''rev'')\<rparr>
      else None)"

text \<open>
  \<open>ValidatedGithubDependency gh ref path\<close>, \<open>ValidatedGitDependency url ref path\<close>,
  \<open>ValidatedLocalDependency path\<close>, \<open>ValidatedClaudePluginDependency plugin marketplace\<close>.
  On a declaration that is neither a string nor an object, JavaScript raises a TypeError
  at \<open>"gh" in decl\<close>, which \<open>parse\<close> would not catch; the schema lets no such value through
  (lemma \<open>DependencyDeclaration_shape\<close>), and the model takes the last branch there.
\<close>

definition parseDependency :: "jsstring \<Rightarrow> js \<Rightarrow> ValidatedDependency ParseResult" where
  "parseDependency alias decl =
     (case decl of
        JStr s \<Rightarrow>
          (case parseRegistryString s of
             None \<Rightarrow>
               Inl \<lparr>type = invalid_dependency,
                    message = str ''Invalid registry dependency format for '' @ quoted alias
                              @ str '': '' @ s,
                    cause = None\<rparr>
           | Some parsed \<Rightarrow> Inr parsed)
      | _ \<Rightarrow>
          if js_has (str ''gh'') decl then
            Inr (ValidatedGithubDependency (js_prop decl (str ''gh'')) (extractGitRef decl)
                   (if truthy (js_prop decl (str ''path''))
                    then Some (js_prop decl (str ''path'')) else None))
          else if js_has (str ''git'') decl then
            Inr (ValidatedGitDependency (js_prop decl (str ''git'')) (extractGitRef decl)
                   (if truthy (js_prop decl (str ''path''))
                    then Some (js_prop decl (str ''path'')) else None))
          else if js_has (str ''type'') decl
                  \<and> js_prop decl (str ''type'') = JStr (str ''claude-plugin'') then
            Inr (ValidatedClaudePluginDependency (js_prop decl (str ''plugin''))
                   (js_prop decl (str ''marketplace'')))
          else if js_has (str ''path'') decl then
            Inr (ValidatedLocalDependency (js_prop decl (str ''path'')))
          else
            Inl \<lparr>type = invalid_dependency,
                 message = str ''Unknown dependency format for '' @ quoted alias,
                 cause = None\<rparr>)"

subsection \<open>Main parser\<close>

definition KNOWN_AGENTS :: "jsstring set" where
  "KNOWN_AGENTS = set AgentId_options"

text \<open>
  The message of an issue: the one its schema gave, or the one of the library's error
  map, which is a parameter of the model.
\<close>

definition issue_message :: "(ZodIssueCode \<Rightarrow> jsstring) \<Rightarrow> ZodIssue \<Rightarrow> jsstring" where
  "issue_message errorMap i =
     (case custom_message i of Some m \<Rightarrow> m | None \<Rightarrow> errorMap (code i))"

text \<open>
  Step 3 of \<open>parse\<close>: the loop over the entries of \<open>manifest.agents\<close>, which fills the
  map \<open>m\<close>.
\<close>

fun process_agents ::
  "(jsstring \<times> js) list \<Rightarrow> (jsstring \<times> js) list \<Rightarrow> (jsstring \<times> js) list" where
  "process_agents [] m = m"
| "process_agents ((agent_id, enabled) # rest) m =
     process_agents rest (if agent_id \<in> KNOWN_AGENTS then js_set agent_id enabled m else m)"

text \<open>
  Step 4 of \<open>parse\<close>: the loop over the entries of \<open>manifest.dependencies\<close>, which returns
  the first error.
\<close>

fun process_dependencies ::
  "(jsstring \<times> js) list \<Rightarrow> (jsstring \<times> ValidatedDependency) list
     \<Rightarrow> (jsstring \<times> ValidatedDependency) list ParseResult" where
  "process_dependencies [] m = Inr m"
| "process_dependencies ((alias, decl) # rest) m =
     (case parseDependency alias decl of
        Inl e \<Rightarrow> Inl e
      | Inr v \<Rightarrow> process_dependencies rest (js_set alias v m))"

text \<open>
  \<open>parse\<close>. The TOML parser is a parameter: it returns the document or throws. The
  schema throws a \<open>ZodError\<close> only, so the \<open>throw err\<close> of step 2 is never reached.
\<close>

definition parse ::
  "(jsstring \<Rightarrow> thrown + js) \<Rightarrow> (ZodIssueCode \<Rightarrow> jsstring) \<Rightarrow> jsstring
     \<Rightarrow> ValidatedManifest ParseResult" where
  "parse parseToml errorMap contents =
     (case parseToml contents of
        Inl err \<Rightarrow>
          Inl \<lparr>type = invalid_toml,
               message = (case err of ErrorInstance m \<Rightarrow> m
                          | NotAnError \<Rightarrow> str ''Invalid TOML syntax''),
               cause = Some (ThrownCause err)\<rparr>
      | Inr raw \<Rightarrow>
          (case zod_parse ManifestSchema raw of
             Inl zod_issues \<Rightarrow>
               (let issues = join (str ''; '')
                               (map (\<lambda>i. join (str ''.'') (path i) @ str '': ''
                                            @ issue_message errorMap i) zod_issues)
                in Inl \<lparr>type = invalid_manifest,
                        message = str ''Invalid manifest: '' @ issues,
                        cause = Some (ZodErrorCause zod_issues)\<rparr>)
           | Inr manifest \<Rightarrow>
               (let agents_map = process_agents
                                   (Object_entries (js_prop manifest (str ''agents''))) []
                in case process_dependencies
                          (Object_entries (js_prop manifest (str ''dependencies''))) [] of
                     Inl e \<Rightarrow> Inl e
                   | Inr dependencies_map \<Rightarrow>
                       Inr \<lparr>package = (if truthy (js_prop manifest (str ''package''))
                                       then Some (js_prop manifest (str ''package''))
                                       else None),
                            agents = agents_map,
                            dependencies = dependencies_map,
                            exports = (if truthy (js_prop manifest (str ''exports''))
                                       then Some (js_prop manifest (str ''exports''))
                                       else None)\<rparr>)))"

text \<open>\<open>parseOrThrow\<close>: \<open>Inl message\<close> is \<open>throw new Error(message)\<close>.\<close>

definition parseOrThrow ::
  "(jsstring \<Rightarrow> thrown + js) \<Rightarrow> (ZodIssueCode \<Rightarrow> jsstring) \<Rightarrow> jsstring
     \<Rightarrow> jsstring + ValidatedManifest" where
  "parseOrThrow parseToml errorMap contents =
     (let result = parse parseToml errorMap contents
      in case result of
           Inl error \<Rightarrow> Inl (message error)
         | Inr v \<Rightarrow> Inr v)"

section \<open>Example documents\<close>

text \<open>
  The TOML parser is a parameter of \<open>parse\<close>; for an example, the parser that returns a
  given document for every text.
\<close>

definition parseToml_returns :: "js \<Rightarrow> jsstring \<Rightarrow> thrown + js" where
  "parseToml_returns doc contents = Inr doc"

text \<open>
  The English messages of the library's default error map, for the examples. The map
  writes a literal with \<open>JSON.stringify\<close> (the literals of the schemas are a string
  without a character to escape, and \<open>false\<close>) and a number in decimal.
\<close>

fun json_literal :: "js \<Rightarrow> jsstring" where
  "json_literal (JStr s) = [34] @ s @ [34]"
| "json_literal (JBool b) = (if b then str ''true'' else str ''false'')"
| "json_literal v = []"

fun decimal :: "nat \<Rightarrow> jsstring" where
  "decimal n = (if n < 10 then [48 + n] else decimal (n div 10) @ [48 + n mod 10])"

declare decimal.simps [simp del]

fun parsedType_name :: "ZodParsedType \<Rightarrow> jsstring" where
  "parsedType_name zt_string = str ''string''"
| "parsedType_name zt_nan = str ''nan''"
| "parsedType_name zt_number = str ''number''"
| "parsedType_name zt_boolean = str ''boolean''"
| "parsedType_name zt_date = str ''date''"
| "parsedType_name zt_array = str ''array''"
| "parsedType_name zt_object = str ''object''"
| "parsedType_name zt_undefined = str ''undefined''"

fun zod_errorMap :: "ZodIssueCode \<Rightarrow> jsstring" where
  "zod_errorMap (invalid_type expected received) =
     (if received = zt_undefined then str ''Required''
      else str ''Expected '' @ parsedType_name expected @ str '', received ''
           @ parsedType_name received)"
| "zod_errorMap (unrecognized_keys keys) =
     str ''Unrecognized key(s) in object: '' @ join (str '', '') (map quoted keys)"
| "zod_errorMap (invalid_literal lit) =
     str ''Invalid literal value, expected '' @ json_literal lit"
| "zod_errorMap invalid_union = str ''Invalid input''"
| "zod_errorMap (too_small n) =
     str ''String must contain at least '' @ decimal n @ str '' character(s)''"
| "zod_errorMap invalid_string = str ''Invalid''"
| "zod_errorMap custom = str ''Invalid input''"

text \<open>A dependency given as a string without a version.\<close>

definition doc_bad_registry :: js where
  "doc_bad_registry =
     JObj [(str ''agents'', JObj []),
           (str ''dependencies'', JObj [(str ''bad'', JStr (str ''no-version''))])]"

text \<open>The minimal manifest of the tests.\<close>

definition doc_minimal :: js where
  "doc_minimal =
     JObj [(str ''package'', JObj [(str ''name'', JStr (str ''test'')),
                                   (str ''version'', JStr (str ''1.0.0''))]),
           (str ''agents'', JObj [(str ''claude-code'', JBool True)])]"

text \<open>
  The git dependency with an SSH address of the tests, a manifest without an \<open>agents\<close>
  table, and a registry shorthand whose version ends with a line feed.
\<close>

definition doc_ssh_git :: js where
  "doc_ssh_git =
     JObj [(str ''agents'', JObj []),
           (str ''dependencies'',
            JObj [(str ''ssh-dep'',
                   JObj [(str ''git'', JStr (str ''git@github.com:org/repo.git'')),
                         (str ''tag'', JStr (str ''v1''))])])]"

definition doc_no_agents :: js where
  "doc_no_agents =
     JObj [(str ''package'', JObj [(str ''name'', JStr (str ''test'')),
                                   (str ''version'', JStr (str ''1.0.0''))])]"

definition doc_newline_version :: js where
  "doc_newline_version =
     JObj [(str ''agents'', JObj []),
           (str ''dependencies'', JObj [(str ''pkg'', JStr (str ''pkg@1.0'' @ [10]))])]"

text \<open>
  The GitHub dependency with a tag of the tests, the same with a second ref, and an
  agents table with an identifier outside the known set.
\<close>

definition doc_github :: js where
  "doc_github =
     JObj [(str ''agents'', JObj []),
           (str ''dependencies'',
            JObj [(str ''sensei'',
                   JObj [(str ''gh'', JStr (str ''sensei-marketplace/sensei'')),
                         (str ''tag'', JStr (str ''v2.0.0''))])])]"



text \<open>Documents with a key outside the schema, one for each place.\<close>

definition doc_unknown_section :: js where
  "doc_unknown_section =
     JObj [(str ''agents'', JObj []),
           (str ''unknown_section'', JObj [(str ''foo'', JStr (str ''bar''))])]"

definition doc_package_extra :: js where
  "doc_package_extra =
     JObj [(str ''package'', JObj [(str ''name'', JStr (str ''test'')),
                                   (str ''version'', JStr (str ''1.0.0'')),
                                   (str ''author'', JStr (str ''me''))])]"

definition doc_exports_extra :: js where
  "doc_exports_extra = JObj [(str ''exports'', JObj [(str ''skills'', JStr (str ''skills''))])]"

definition doc_auto_discover_extra :: js where
  "doc_auto_discover_extra =
     JObj [(str ''exports'',
            JObj [(str ''auto_discover'',
                   JObj [(str ''skills'', JStr (str ''skills'')),
                         (str ''agents'', JBool False)])])]"

definition doc_dependency_extra :: js where
  "doc_dependency_extra =
     JObj [(str ''dependencies'',
            JObj [(str ''sensei'',
                   JObj [(str ''gh'', JStr (str ''sensei-marketplace/sensei'')),
                         (str ''plugin'', JStr (str ''sensei''))])])]"

text \<open>
  Dependency objects with a key outside their shape: a Git object, a Claude plugin
  object, a Local object, and an object with none of the keys that identify a shape.
\<close>

definition doc_git_extra :: js where
  "doc_git_extra =
     JObj [(str ''dependencies'',
            JObj [(str ''tools'',
                   JObj [(str ''git'', JStr (str ''https://gitlab.com/org/repo'')),
                         (str ''owner'', JStr (str ''org''))])])]"

definition doc_plugin_extra :: js where
  "doc_plugin_extra =
     JObj [(str ''dependencies'',
            JObj [(str ''my-plugin'',
                   JObj [(str ''type'', JStr (str ''claude-plugin'')),
                         (str ''plugin'', JStr (str ''playwright'')),
                         (str ''marketplace'', JStr (str ''anthropics/claude-plugins'')),
                         (str ''version'', JStr (str ''1.0.0''))])])]"

definition doc_local_extra :: js where
  "doc_local_extra =
     JObj [(str ''dependencies'',
            JObj [(str ''local-dev'',
                   JObj [(str ''path'', JStr (str ''../my-local-skills'')),
                         (str ''tag'', JStr (str ''v1''))])])]"

definition doc_no_variant_key :: js where
  "doc_no_variant_key =
     JObj [(str ''dependencies'',
            JObj [(str ''custom'', JObj [(str ''url'', JStr (str ''https://example.com''))])])]"

text \<open>
  A manifest with two registry dependencies; a dependency under the key \<open>__proto__\<close>; two
  keys that are equal once trimmed; a registry dependency beside an unknown section; and
  an alias with a dot.
\<close>

definition doc_registry :: js where
  "doc_registry =
     JObj [(str ''package'', JObj [(str ''name'', JStr (str ''my-skills'')),
                                   (str ''version'', JStr (str ''1.0.0''))]),
           (str ''agents'', JObj [(str ''claude-code'', JBool True)]),
           (str ''dependencies'',
            JObj [(str ''superpowers'', JStr (str ''superpowers@1.0.0'')),
                  (str ''feature-dev'', JStr (str ''@claude-plugins/feature-dev@2.0.0''))])]"

definition doc_proto_alias :: js where
  "doc_proto_alias =
     JObj [(str ''agents'', JObj []),
           (str ''dependencies'', JObj [(str ''__proto__'', JStr (str ''pkg@1.0''))])]"

definition doc_colliding_aliases :: js where
  "doc_colliding_aliases =
     JObj [(str ''agents'', JObj []),
           (str ''dependencies'',
            JObj [(str ''tools'', JStr (str ''first@1.0'')),
                  (str '' tools'', JStr (str ''second@2.0''))])]"

definition doc_registry_unknown_section :: js where
  "doc_registry_unknown_section =
     JObj [(str ''agents'', JObj []),
           (str ''scripts'', JObj [(str ''build'', JStr (str ''make''))]),
           (str ''dependencies'', JObj [(str ''superpowers'', JStr (str ''superpowers@1.0.0''))])]"

definition doc_bad_alias :: js where
  "doc_bad_alias =
     JObj [(str ''agents'', JObj []),
           (str ''dependencies'', JObj [(str ''my.tools'', JStr (str ''pkg@1.0''))])]"





section \<open>Auxiliary definitions\<close>

text \<open>A pattern without its capturing groups.\<close>

fun strip_groups :: "regex \<Rightarrow> regex" where
  "strip_groups (One a) = One a"
| "strip_groups (Plus a) = Plus a"
| "strip_groups (Seq r1 r2) = Seq (strip_groups r1) (strip_groups r2)"
| "strip_groups (Opt r) = Opt (strip_groups r)"
| "strip_groups (Grp r) = strip_groups r"

text \<open>The object that \<open>mergeObjectLoop\<close> builds when no pair is aborted.\<close>

fun merge_final :: "(jsstring \<times> js) list \<Rightarrow> ParsePair list \<Rightarrow> (jsstring \<times> js) list" where
  "merge_final fo [] = fo"
| "merge_final fo ((key, val, alwaysSet) # pairs) =
     merge_final
       (if result_value key \<noteq> JStr (str ''__proto__'')
           \<and> (result_value val \<noteq> JUndef \<or> alwaysSet)
        then obj_set (string_of (result_value key)) (result_value val) fo
        else fo)
       pairs"

definition pair_key :: "ParsePair \<Rightarrow> jsstring" where
  "pair_key pr = string_of (result_value (fst pr))"

text \<open>The parts of the result of a strict object and of a record on an object.\<close>

definition extra_keys :: "(jsstring \<times> ZodType) list \<Rightarrow> (jsstring \<times> js) list \<Rightarrow> jsstring list" where
  "extra_keys shape kvs = filter (\<lambda>key. key \<notin> set (map fst shape)) (map fst kvs)"

definition object_pairs ::
  "(jsstring \<times> ZodType) list \<Rightarrow> jsstring list \<Rightarrow> (jsstring \<times> js) list \<Rightarrow> ParsePair list" where
  "object_pairs shape p kvs =
     map (\<lambda>(key, f). (OK (JStr key), fst (f (p @ [key]) (js_get kvs key)), js_in key kvs)) shape"

definition field_issues ::
  "(jsstring \<times> ZodType) list \<Rightarrow> jsstring list \<Rightarrow> (jsstring \<times> js) list \<Rightarrow> ZodIssue list" where
  "field_issues shape p kvs =
     concat (map (\<lambda>(key, f). snd (f (p @ [key]) (js_get kvs key))) shape)"

definition record_pairs ::
  "ZodType \<Rightarrow> ZodType \<Rightarrow> jsstring list \<Rightarrow> (jsstring \<times> js) list \<Rightarrow> ParsePair list" where
  "record_pairs kt vt p kvs =
     map (\<lambda>key. (fst (kt (p @ [key]) (JStr key)), fst (vt (p @ [key]) (js_get kvs key)), True))
         (map fst kvs)"

definition record_issues ::
  "ZodType \<Rightarrow> ZodType \<Rightarrow> jsstring list \<Rightarrow> (jsstring \<times> js) list \<Rightarrow> ZodIssue list" where
  "record_issues kt vt p kvs =
     concat (map (\<lambda>key. snd (kt (p @ [key]) (JStr key)) @ snd (vt (p @ [key]) (js_get kvs key)))
                 (map fst kvs))"

text \<open>
  The values the union of the five declaration shapes lets through: a string that
  matches the registry pattern, or an object with one of the discriminating keys.
\<close>

definition declaration_shape :: "js \<Rightarrow> bool" where
  "declaration_shape v =
     (case v of
        JStr s \<Rightarrow> rx_test RegistryPattern s
      | JObj kvs \<Rightarrow>
          js_in (str ''gh'') kvs \<or> js_in (str ''git'') kvs
          \<or> (js_in (str ''type'') kvs \<and> js_get kvs (str ''type'') = JStr (str ''claude-plugin''))
          \<or> js_in (str ''path'') kvs
      | _ \<Rightarrow> False)"




text \<open>
  A table without the entries of one key, and a document without one entry of its
  \<open>dependencies\<close> table.
\<close>

definition remove_key :: "jsstring \<Rightarrow> (jsstring \<times> js) list \<Rightarrow> (jsstring \<times> js) list" where
  "remove_key k kvs = filter (\<lambda>(k', v). k' \<noteq> k) kvs"

definition without_dependency :: "jsstring \<Rightarrow> (jsstring \<times> js) list \<Rightarrow> (jsstring \<times> js) list" where
  "without_dependency a tbl =
     map (\<lambda>(k, v). if k = str ''dependencies''
                    then (k, JObj (remove_key a (Object_entries v))) else (k, v)) tbl"



section \<open>Evaluation\<close>

text \<open>The definitions that the simplifier unfolds to run the parser on a document.\<close>

lemmas eval_defs = parse_def parseOrThrow_def parseToml_returns_def zod_parse_def ManifestSchema_def
  z_object_strict_def z_record_def z_union_def z_default_def z_optional_def z_refine_def
  z_pipe_def z_transform_def z_string_def z_boolean_def z_literal_def mergeObjectSync_def
  mk_result_def Let_def js_get_def js_in_def js_prop_def js_has_def Object_entries_def
  AgentsSchema_def DependenciesSchema_def DependencyDeclaration_def RegistryDependency_def
  GithubDependency_def GitDependency_def LocalDependency_def ClaudePluginDependency_def
  ExportsSchema_def PackageSchema_def NonEmptyString_def Alias_def GithubRef_def
  one_ref_at_most_def one_ref_message_def string_of_def quoted_def trim_def isWhiteSpace_def
  rx_test_def rx_exec_def str_match_def capture_def RegistryPattern_def REGISTRY_PATTERN_def
  GithubRefPattern_def id_class_def gh_class_def parseDependency_def parseRegistryString_def
  extractGitRef_def issue_message_def KNOWN_AGENTS_def AgentId_options_def obj_set_def
  index_before_def array_index_def

section \<open>Properties of the matcher and of the schema library\<close>

lemma many1_first:
  "m \<noteq> [] \<Longrightarrow> \<forall>c\<in>set m. P c \<Longrightarrow> rest = [] \<or> \<not> P (hd rest)
     \<Longrightarrow> \<exists>t. many1 P (m @ rest) = rest # t"
proof (induction m)
  case Nil
  then show ?case by simp
next
  case (Cons c m)
  show ?case
  proof (cases "m = []")
    case True
    with Cons.prems show ?thesis by (cases rest) auto
  next
    case False
    with Cons obtain t where "many1 P (m @ rest) = rest # t" by auto
    with Cons.prems show ?thesis by simp
  qed
qed

lemma many1_iff:
  "rest \<in> set (many1 P s) \<longleftrightarrow> (\<exists>m. m \<noteq> [] \<and> s = m @ rest \<and> (\<forall>c\<in>set m. P c))"
proof (induction s)
  case Nil
  then show ?case by simp
next
  case (Cons c s)
  show ?case
  proof
    assume "rest \<in> set (many1 P (c # s))"
    then have pc: "P c" and "rest \<in> set (many1 P s) \<or> rest = s"
      by (auto split: if_splits)
    then show "\<exists>m. m \<noteq> [] \<and> c # s = m @ rest \<and> (\<forall>c\<in>set m. P c)"
    proof (elim disjE)
      assume "rest \<in> set (many1 P s)"
      with Cons obtain m where "m \<noteq> []" "s = m @ rest" "\<forall>c\<in>set m. P c" by auto
      with pc show ?thesis by (intro exI[of _ "c # m"]) simp
    next
      assume "rest = s"
      with pc show ?thesis by (intro exI[of _ "[c]"]) simp
    qed
  next
    assume "\<exists>m. m \<noteq> [] \<and> c # s = m @ rest \<and> (\<forall>c\<in>set m. P c)"
    then obtain m where m: "m \<noteq> []" "c # s = m @ rest" "\<forall>c\<in>set m. P c" by auto
    then obtain m' where m': "m = c # m'" by (cases m) auto
    with m have pc: "P c" and s: "s = m' @ rest" by auto
    show "rest \<in> set (many1 P (c # s))"
    proof (cases "m' = []")
      case True
      with pc s show ?thesis by simp
    next
      case False
      with m m' s Cons have "rest \<in> set (many1 P s)" by auto
      with pc show ?thesis by simp
    qed
  qed
qed

lemma rx_run_Seq_snd:
  "map snd (rx_run (Seq r1 r2) s)
     = concat (map (\<lambda>rest1. map snd (rx_run r2 rest1)) (map snd (rx_run r1 s)))"
  by (simp add: map_concat comp_def case_prod_unfold)

lemma rx_run_strip: "map snd (rx_run (strip_groups r) s) = map snd (rx_run r s)"
proof (induction r arbitrary: s)
  case (Seq r1 r2)
  show ?case
    unfolding strip_groups.simps rx_run_Seq_snd by (simp only: Seq)
next
  case (Grp r)
  then show ?case by (simp add: comp_def case_prod_unfold)
next
  case (Opt r)
  then show ?case by (simp add: comp_def case_prod_unfold)
qed simp_all

lemma find_Some_ex: "(find P xs \<noteq> None) = (\<exists>x\<in>set xs. P x)"
  by (simp add: find_None_iff Bex_def)

lemma rx_test_iff: "rx_test r s \<longleftrightarrow> (\<exists>c. (c, []) \<in> set (rx_run r s))"
proof -
  have "rx_test r s \<longleftrightarrow> (\<exists>x\<in>set (rx_run r s). snd x = [])"
    unfolding rx_test_def rx_exec_def
    by (simp only: find_Some_ex case_prod_unfold option.map_disc_iff)
  also have "\<dots> \<longleftrightarrow> (\<exists>c. (c, []) \<in> set (rx_run r s))"
    by (metis prod.collapse snd_conv)
  finally show ?thesis .
qed

lemma snd_image_iff: "(y \<in> snd ` A) = (\<exists>c. (c, y) \<in> A)"
  by force

lemma rx_test_strip: "rx_test (strip_groups r) s = rx_test r s"
proof -
  have "rx_test r s \<longleftrightarrow> [] \<in> set (map snd (rx_run r s))" for r
    by (simp add: rx_test_iff snd_image_iff)
  then show ?thesis by (simp only: rx_run_strip)
qed

lemma strip_registry: "strip_groups REGISTRY_PATTERN = strip_groups RegistryPattern"
  unfolding REGISTRY_PATTERN_def RegistryPattern_def by (simp only: strip_groups.simps)

lemma registry_patterns_agree: "rx_test REGISTRY_PATTERN s = rx_test RegistryPattern s"
  using rx_test_strip[of REGISTRY_PATTERN s] rx_test_strip[of RegistryPattern s]
  by (simp only: strip_registry)

lemma isValid_iff: "isValid r \<longleftrightarrow> (\<exists>v. r = OK v)"
  by (cases r) auto

lemma mk_result_OK [simp]: "mk_result d v = OK v' \<longleftrightarrow> \<not> d \<and> v' = v"
  by (auto simp: mk_result_def)

lemma mk_result_not_INVALID [simp]: "mk_result d v \<noteq> INVALID"
  by (simp add: mk_result_def)

lemma mk_result_value [simp]: "result_value (mk_result d v) = v"
  by (simp add: mk_result_def)

lemma mk_result_isDirty [simp]: "isDirty (mk_result d v) = d"
  by (simp add: mk_result_def)

lemma mk_result_isValid [simp]: "isValid (mk_result d v) = (\<not> d)"
  by (simp add: mk_result_def)

lemma mk_result_isAborted [simp]: "\<not> isAborted (mk_result d v)"
  by (simp add: mk_result_def)

text \<open>mergeObjectLoop\<close>

lemma mergeObjectLoop_OK:
  "mergeObjectLoop d fo pairs = OK v \<Longrightarrow>
     \<not> d \<and> (\<forall>(k, vl, a)\<in>set pairs. isValid k \<and> isValid vl) \<and> v = JObj (merge_final fo pairs)"
proof (induction pairs arbitrary: d fo)
  case Nil
  then show ?case by simp
next
  case (Cons pr pairs)
  obtain k vl a where pr: "pr = (k, vl, a)" by (cases pr) auto
  from Cons.prems pr have na: "\<not> isAborted k" "\<not> isAborted vl"
    by (auto split: if_splits)
  with Cons.prems pr have
    "mergeObjectLoop (d \<or> isDirty k \<or> isDirty vl)
       (if result_value k \<noteq> JStr (str ''__proto__'') \<and> (result_value vl \<noteq> JUndef \<or> a)
        then obj_set (string_of (result_value k)) (result_value vl) fo else fo) pairs = OK v"
    by simp
  from Cons.IH[OF this] na pr show ?case
    by (cases k; cases vl) auto
qed

lemma mergeObjectLoop_not_aborted:
  "\<forall>(k, vl, a)\<in>set pairs. \<not> isAborted k \<and> \<not> isAborted vl \<Longrightarrow>
   mergeObjectLoop d fo pairs
     = mk_result (d \<or> (\<exists>(k, vl, a)\<in>set pairs. isDirty k \<or> isDirty vl))
         (JObj (merge_final fo pairs))"
proof (induction pairs arbitrary: d fo)
  case Nil
  then show ?case by simp
next
  case (Cons pr pairs)
  obtain k vl a where pr: "pr = (k, vl, a)" by (cases pr) auto
  with Cons show ?case by (auto simp: mk_result_def)
qed


lemma z_object_strict_JObj:
  "z_object_strict shape p (JObj kvs) =
     (mergeObjectLoop (extra_keys shape kvs \<noteq> []) [] (object_pairs shape p kvs),
      field_issues shape p kvs
      @ (if extra_keys shape kvs \<noteq> []
         then [\<lparr>code = unrecognized_keys (extra_keys shape kvs), path = p, custom_message = None\<rparr>]
         else []))"
  by (simp add: z_object_strict_def Let_def mergeObjectSync_def object_pairs_def
      field_issues_def extra_keys_def comp_def case_prod_unfold)

lemma z_object_strict_not_object:
  "\<forall>kvs. data \<noteq> JObj kvs \<Longrightarrow> fst (z_object_strict shape p data) = INVALID"
  by (cases data) (simp_all add: z_object_strict_def)

lemma z_record_JObj:
  "z_record kt vt p (JObj kvs) =
     (mergeObjectLoop False [] (record_pairs kt vt p kvs), record_issues kt vt p kvs)"
  by (simp add: z_record_def Let_def mergeObjectSync_def record_pairs_def
      record_issues_def comp_def case_prod_unfold)

lemma z_record_not_object:
  "\<forall>kvs. data \<noteq> JObj kvs \<Longrightarrow> fst (z_record kt vt p data) = INVALID"
  by (cases data) (simp_all add: z_record_def)

lemma extra_keys_empty_iff:
  "extra_keys shape kvs = [] \<longleftrightarrow> set (map fst kvs) \<subseteq> set (map fst shape)"
  by (auto simp: extra_keys_def filter_empty_conv)

text \<open>Inversion of a valid strict object.\<close>

lemma z_object_strict_OK:
  assumes "fst (z_object_strict shape p data) = OK v"
  shows "\<exists>kvs. data = JObj kvs \<and> set (map fst kvs) \<subseteq> set (map fst shape)
           \<and> (\<forall>(k, f)\<in>set shape. isValid (fst (f (p @ [k]) (js_get kvs k))))
           \<and> v = JObj (merge_final [] (object_pairs shape p kvs))"
proof -
  from assms obtain kvs where d: "data = JObj kvs"
    using z_object_strict_not_object[of data shape p] by auto
  with assms have m: "mergeObjectLoop (extra_keys shape kvs \<noteq> []) [] (object_pairs shape p kvs) = OK v"
    by (simp add: z_object_strict_JObj)
  from mergeObjectLoop_OK[OF m] have
    e: "extra_keys shape kvs = []"
    and a: "\<forall>(k, vl, a)\<in>set (object_pairs shape p kvs). isValid k \<and> isValid vl"
    and v: "v = JObj (merge_final [] (object_pairs shape p kvs))"
    by auto
  from a have "\<forall>(k, f)\<in>set shape. isValid (fst (f (p @ [k]) (js_get kvs k)))"
    by (auto simp: object_pairs_def)
  with d e v show ?thesis by (auto simp: extra_keys_empty_iff)
qed

lemma z_record_OK:
  assumes "fst (z_record kt vt p data) = OK v"
  shows "\<exists>kvs. data = JObj kvs
           \<and> (\<forall>k\<in>set (map fst kvs). isValid (fst (kt (p @ [k]) (JStr k)))
                  \<and> isValid (fst (vt (p @ [k]) (js_get kvs k))))
           \<and> v = JObj (merge_final [] (record_pairs kt vt p kvs))"
proof -
  from assms obtain kvs where d: "data = JObj kvs"
    using z_record_not_object[of data kt vt p] by auto
  with assms have m: "mergeObjectLoop False [] (record_pairs kt vt p kvs) = OK v"
    by (simp add: z_record_JObj)
  from mergeObjectLoop_OK[OF m] have
    a: "\<forall>(k, vl, a)\<in>set (record_pairs kt vt p kvs). isValid k \<and> isValid vl"
    and v: "v = JObj (merge_final [] (record_pairs kt vt p kvs))"
    by auto
  from a have "\<forall>k\<in>set (map fst kvs). isValid (fst (kt (p @ [k]) (JStr k)))
                  \<and> isValid (fst (vt (p @ [k]) (js_get kvs k)))"
    by (auto simp: record_pairs_def)
  with d v show ?thesis by auto
qed

text \<open>Unions, refinements, optional values.\<close>

lemma z_union_OK:
  assumes "fst (z_union options p data) = OK v"
  shows "\<exists>option\<in>set options. fst (option p data) = OK v"
proof -
  let ?results = "map (\<lambda>option. option p data) options"
  show ?thesis
  proof (cases "find (\<lambda>(res, issues). isValid res) ?results")
    case None
    show ?thesis
    proof (cases "find (\<lambda>(res, issues). isDirty res) ?results")
      case None2: None
      with None assms show ?thesis by (simp add: z_union_def Let_def)
    next
      case Some2: (Some r)
      then have "isDirty (fst r)" by (auto simp: find_Some_iff case_prod_unfold)
      moreover from None Some2 assms have "fst r = OK v"
        by (simp add: z_union_def Let_def case_prod_unfold)
      ultimately show ?thesis by simp
    qed
  next
    case (Some r)
    then have "r \<in> set ?results" and "isValid (fst r)"
      by (auto simp: find_Some_iff case_prod_unfold)
    moreover from assms Some have "fst r = OK v"
      by (simp add: z_union_def Let_def case_prod_unfold)
    ultimately show ?thesis by auto
  qed
qed

lemma z_refine_OK:
  "fst (z_refine schema check msg p data) = OK v \<Longrightarrow> fst (schema p data) = OK v \<and> check v"
  by (auto simp: z_refine_def split: prod.splits SyncParseReturnType.splits if_splits)

lemma z_optional_OK:
  "fst (z_optional schema p data) = OK v \<Longrightarrow>
     (data = JUndef \<and> v = JUndef) \<or> (data \<noteq> JUndef \<and> fst (schema p data) = OK v)"
  by (auto simp: z_optional_def split: if_splits)

lemma z_default_OK:
  "fst (z_default schema dflt p data) = OK v \<Longrightarrow>
     (data = JUndef \<and> fst (schema p dflt) = OK v) \<or> (data \<noteq> JUndef \<and> fst (schema p data) = OK v)"
  by (auto simp: z_default_def split: if_splits)

text \<open>Strings.\<close>

lemma z_string_nil: "z_string [] p (JStr s) = (OK (JStr s), [])"
  by (simp add: z_string_def mk_result_def)

lemma z_string_not_string:
  "\<forall>s. data \<noteq> JStr s \<Longrightarrow>
     z_string checks p data
       = (INVALID, [\<lparr>code = invalid_type zt_string (getParsedType data), path = p,
                       custom_message = None\<rparr>])"
  by (cases data) (simp_all add: z_string_def)

lemma trim_transform_JStr:
  "z_transform (z_string []) f p (JStr s) = (OK (JStr (f s)), [])"
  by (simp add: z_transform_def z_string_nil)

lemma trim_transform_not_string:
  "\<forall>s. data \<noteq> JStr s \<Longrightarrow>
     z_transform (z_string []) f p data
       = (INVALID, [\<lparr>code = invalid_type zt_string (getParsedType data), path = p,
                       custom_message = None\<rparr>])"
  by (simp add: z_transform_def z_string_not_string)

lemma NonEmptyString_JStr:
  "NonEmptyString p (JStr s) =
     (if trim s = []
      then (DIRTY (JStr []),
            [\<lparr>code = too_small 1, path = p, custom_message = Some (str ''String cannot be empty'')\<rparr>])
      else (OK (JStr (trim s)), []))"
  by (simp add: NonEmptyString_def z_pipe_def trim_transform_JStr z_string_def mk_result_def)

lemma NonEmptyString_not_string:
  "\<forall>s. data \<noteq> JStr s \<Longrightarrow>
     NonEmptyString p data
       = (INVALID, [\<lparr>code = invalid_type zt_string (getParsedType data), path = p,
                       custom_message = None\<rparr>])"
  by (simp add: NonEmptyString_def z_pipe_def trim_transform_not_string)

lemma NonEmptyString_OK:
  "fst (NonEmptyString p data) = OK v \<Longrightarrow> \<exists>s. data = JStr s \<and> trim s \<noteq> [] \<and> v = JStr (trim s)"
proof (cases "\<exists>s. data = JStr s")
  case True
  assume "fst (NonEmptyString p data) = OK v"
  with True show ?thesis by (auto simp: NonEmptyString_JStr split: if_splits)
next
  case False
  assume "fst (NonEmptyString p data) = OK v"
  with False show ?thesis by (simp add: NonEmptyString_not_string)
qed

lemma map_of_js_set: "map_of (js_set k v m) = (map_of m)(k \<mapsto> v)"
  by (induction m) (auto simp: fun_eq_iff)

lemma js_get_js_set: "js_get (js_set k v m) k' = (if k' = k then v else js_get m k')"
  by (simp add: js_get_def map_of_js_set)

lemma keys_js_set: "set (map fst (js_set k v m)) = insert k (set (map fst m))"
proof -
  have "fst ` set (js_set k v m) = dom (map_of (js_set k v m))"
    by (simp only: dom_map_of_conv_image_fst)
  also have "\<dots> = insert k (dom (map_of m))"
    by (simp add: map_of_js_set)
  also have "\<dots> = insert k (fst ` set m)"
    by (simp only: dom_map_of_conv_image_fst)
  finally show ?thesis by simp
qed

lemma js_in_js_set: "js_in k' (js_set k v m) = (k' = k \<or> js_in k' m)"
  by (simp only: js_in_def keys_js_set insert_iff)

lemma distinct_js_set: "distinct (map fst m) \<Longrightarrow> distinct (map fst (js_set k v m))"
proof (induction m)
  case Nil
  then show ?case by simp
next
  case (Cons a m)
  then show ?case
    using keys_js_set[of k v m] by (cases a) (auto simp del: set_map)
qed

lemma set_js_set: "set (js_set k v m) \<subseteq> insert (k, v) (set m)"
  by (induction m) (auto split: if_splits)

lemma set_obj_insert: "set (obj_insert k v m) = insert (k, v) (set m)"
  by (induction m) (auto split: if_splits)

lemma keys_obj_insert: "set (map fst (obj_insert k v m)) = insert k (set (map fst m))"
  by (simp add: set_obj_insert)

lemma map_of_obj_insert: "k \<notin> set (map fst m) \<Longrightarrow> map_of (obj_insert k v m) = (map_of m)(k \<mapsto> v)"
  by (induction m) (auto simp: fun_eq_iff)

lemma distinct_obj_insert:
  "k \<notin> set (map fst m) \<Longrightarrow> distinct (map fst m) \<Longrightarrow> distinct (map fst (obj_insert k v m))"
proof (induction m)
  case Nil
  then show ?case by simp
next
  case (Cons a m)
  then show ?case
    using keys_obj_insert[of k v m] by (cases a) (auto simp del: set_map)
qed

lemma map_of_obj_set: "map_of (obj_set k v m) = (map_of m)(k \<mapsto> v)"
  by (simp add: obj_set_def map_of_js_set map_of_obj_insert js_in_def del: set_map)

lemma js_get_obj_set: "js_get (obj_set k v m) k' = (if k' = k then v else js_get m k')"
  by (simp add: js_get_def map_of_obj_set)

lemma keys_obj_set: "set (map fst (obj_set k v m)) = insert k (set (map fst m))"
proof -
  have "fst ` set (obj_set k v m) = dom (map_of (obj_set k v m))"
    by (simp only: dom_map_of_conv_image_fst)
  also have "\<dots> = insert k (dom (map_of m))"
    by (simp add: map_of_obj_set)
  also have "\<dots> = insert k (fst ` set m)"
    by (simp only: dom_map_of_conv_image_fst)
  finally show ?thesis by simp
qed

lemma js_in_obj_set: "js_in k' (obj_set k v m) = (k' = k \<or> js_in k' m)"
  by (simp only: js_in_def keys_obj_set insert_iff)

lemma distinct_obj_set: "distinct (map fst m) \<Longrightarrow> distinct (map fst (obj_set k v m))"
  by (simp add: obj_set_def distinct_js_set distinct_obj_insert js_in_def del: set_map)

lemma set_obj_set: "set (obj_set k v m) \<subseteq> insert (k, v) (set m)"
  using set_js_set[of k v m] by (simp add: obj_set_def set_obj_insert)

lemma js_get_Nil [simp]: "js_get [] k = JUndef"
  by (simp add: js_get_def)

lemma js_in_Nil [simp]: "\<not> js_in k []"
  by (simp add: js_in_def)

lemma merge_final_entries:
  "(k, v) \<in> set (merge_final fo pairs) \<Longrightarrow>
     (k, v) \<in> set fo \<or> (\<exists>(kr, vr, a)\<in>set pairs. v = result_value vr)"
proof (induction pairs arbitrary: fo)
  case Nil
  then show ?case by simp
next
  case (Cons pr pairs)
  obtain kr vr a where pr: "pr = (kr, vr, a)" by (cases pr) auto
  let ?fo = "if result_value kr \<noteq> JStr (str ''__proto__'') \<and> (result_value vr \<noteq> JUndef \<or> a)
             then obj_set (string_of (result_value kr)) (result_value vr) fo else fo"
  from Cons.prems pr have "(k, v) \<in> set (merge_final ?fo pairs)" by simp
  from Cons.IH[OF this] have "(k, v) \<in> set ?fo \<or> (\<exists>(kr, vr, a)\<in>set pairs. v = result_value vr)" .
  then show ?case
  proof
    assume "(k, v) \<in> set ?fo"
    then have "(k, v) \<in> set fo \<or> v = result_value vr"
      using set_obj_set[of "string_of (result_value kr)" "result_value vr" fo]
      by (auto split: if_splits)
    with pr show ?thesis by auto
  next
    assume "\<exists>(kr, vr, a)\<in>set pairs. v = result_value vr"
    then show ?thesis by auto
  qed
qed

lemma distinct_merge_final:
  "distinct (map fst fo) \<Longrightarrow> distinct (map fst (merge_final fo pairs))"
proof (induction pairs arbitrary: fo)
  case Nil
  then show ?case by simp
next
  case (Cons pr pairs)
  obtain kr vr a where pr: "pr = (kr, vr, a)" by (cases pr) auto
  with Cons show ?case by (simp add: distinct_obj_set del: set_map)
qed

lemma merge_final_get_other:
  "k \<notin> set (map pair_key pairs) \<Longrightarrow> js_get (merge_final fo pairs) k = js_get fo k"
proof (induction pairs arbitrary: fo)
  case Nil
  then show ?case by simp
next
  case (Cons pr pairs)
  obtain kr vr a where pr: "pr = (kr, vr, a)" by (cases pr) auto
  with Cons show ?case by (simp add: pair_key_def js_get_obj_set)
qed

lemma merge_final_in_other:
  "k \<notin> set (map pair_key pairs) \<Longrightarrow> js_in k (merge_final fo pairs) = js_in k fo"
proof (induction pairs arbitrary: fo)
  case Nil
  then show ?case by simp
next
  case (Cons pr pairs)
  obtain kr vr a where pr: "pr = (kr, vr, a)" by (cases pr) auto
  with Cons show ?case by (simp add: pair_key_def js_in_obj_set)
qed

lemma merge_final_get:
  "distinct (map pair_key pairs) \<Longrightarrow> (kr, vr, a) \<in> set pairs
     \<Longrightarrow> result_value kr \<noteq> JStr (str ''__proto__'')
     \<Longrightarrow> js_get (merge_final fo pairs) (string_of (result_value kr))
           = (if result_value vr \<noteq> JUndef \<or> a then result_value vr
              else js_get fo (string_of (result_value kr)))"
proof (induction pairs arbitrary: fo)
  case Nil
  then show ?case by simp
next
  case (Cons pr pairs)
  show ?case
  proof (cases "pr = (kr, vr, a)")
    case True
    with Cons.prems have "string_of (result_value kr) \<notin> set (map pair_key pairs)"
      by (simp add: pair_key_def)
    from merge_final_get_other[OF this] True Cons.prems(3) show ?thesis
      by (simp add: js_get_obj_set)
  next
    case False
    obtain kr' vr' a' where pr: "pr = (kr', vr', a')" by (cases pr) auto
    from False Cons.prems have mem: "(kr, vr, a) \<in> set pairs" by simp
    with Cons.prems pr have ne: "string_of (result_value kr') \<noteq> string_of (result_value kr)"
      by (force simp: pair_key_def)
    from Cons.prems have d: "distinct (map pair_key pairs)" by simp
    from Cons.IH[OF d mem Cons.prems(3)] pr ne show ?thesis
      by (simp add: js_get_obj_set)
  qed
qed

lemma merge_final_in:
  "distinct (map pair_key pairs) \<Longrightarrow> (kr, vr, a) \<in> set pairs
     \<Longrightarrow> result_value kr \<noteq> JStr (str ''__proto__'')
     \<Longrightarrow> js_in (string_of (result_value kr)) (merge_final fo pairs)
           = (result_value vr \<noteq> JUndef \<or> a \<or> js_in (string_of (result_value kr)) fo)"
proof (induction pairs arbitrary: fo)
  case Nil
  then show ?case by simp
next
  case (Cons pr pairs)
  show ?case
  proof (cases "pr = (kr, vr, a)")
    case True
    with Cons.prems have "string_of (result_value kr) \<notin> set (map pair_key pairs)"
      by (simp add: pair_key_def)
    from merge_final_in_other[OF this] True Cons.prems(3) show ?thesis
      by (auto simp add: js_in_obj_set)
  next
    case False
    obtain kr' vr' a' where pr: "pr = (kr', vr', a')" by (cases pr) auto
    from False Cons.prems have mem: "(kr, vr, a) \<in> set pairs" by simp
    with Cons.prems pr have ne: "string_of (result_value kr') \<noteq> string_of (result_value kr)"
      by (force simp: pair_key_def)
    from Cons.prems have d: "distinct (map pair_key pairs)" by simp
    from Cons.IH[OF d mem Cons.prems(3)] pr ne show ?thesis
      by (auto simp add: js_in_obj_set)
  qed
qed

lemma merge_final_keys:
  "js_in k (merge_final fo pairs) \<Longrightarrow> js_in k fo \<or> k \<in> set (map pair_key pairs)"
  using merge_final_in_other[of k pairs fo] by blast

text \<open>The output of a strict object.\<close>

lemma object_pairs_keys: "map pair_key (object_pairs shape p kvs) = map fst shape"
  by (simp add: object_pairs_def pair_key_def comp_def case_prod_unfold string_of_def)

lemma object_output_get:
  assumes "distinct (map fst shape)" and "(k, f) \<in> set shape" and "k \<noteq> str ''__proto__''"
  shows "js_get (merge_final [] (object_pairs shape p kvs)) k
           = result_value (fst (f (p @ [k]) (js_get kvs k)))"
proof -
  have mem: "(OK (JStr k), fst (f (p @ [k]) (js_get kvs k)), js_in k kvs)
               \<in> set (object_pairs shape p kvs)"
    using assms(2) by (force simp: object_pairs_def)
  have "distinct (map pair_key (object_pairs shape p kvs))"
    using assms(1) by (simp only: object_pairs_keys)
  from merge_final_get[OF this mem, of "[]"] assms(3) show ?thesis
    by (simp add: string_of_def)
qed

lemma object_output_in:
  assumes "distinct (map fst shape)" and "(k, f) \<in> set shape" and "k \<noteq> str ''__proto__''"
  shows "js_in k (merge_final [] (object_pairs shape p kvs))
           = (result_value (fst (f (p @ [k]) (js_get kvs k))) \<noteq> JUndef \<or> js_in k kvs)"
proof -
  have mem: "(OK (JStr k), fst (f (p @ [k]) (js_get kvs k)), js_in k kvs)
               \<in> set (object_pairs shape p kvs)"
    using assms(2) by (force simp: object_pairs_def)
  have "distinct (map pair_key (object_pairs shape p kvs))"
    using assms(1) by (simp only: object_pairs_keys)
  from merge_final_in[OF this mem, of "[]"] assms(3) show ?thesis
    by (simp add: string_of_def)
qed

lemma object_output_keys:
  "js_in k (merge_final [] (object_pairs shape p kvs)) \<Longrightarrow> k \<in> set (map fst shape)"
  using merge_final_keys[of k "[]" "object_pairs shape p kvs"]
  by (simp only: object_pairs_keys js_in_Nil simp_thms)

lemma z_string_OK:
  "fst (z_string checks p data) = OK v \<Longrightarrow>
     \<exists>s. data = JStr s \<and> v = JStr s \<and> (\<forall>c\<in>set checks. string_check p s c = [])"
  by (cases data) (auto simp: z_string_def Let_def)

lemma z_literal_OK: "fst (z_literal lit p data) = OK v \<Longrightarrow> data = lit \<and> v = lit"
  by (auto simp: z_literal_def split: if_splits)

lemma optional_NonEmptyString_OK:
  "fst (z_optional NonEmptyString p x) = OK v \<Longrightarrow>
     (x = JUndef \<and> v = JUndef) \<or> (\<exists>s. x = JStr s \<and> trim s \<noteq> [] \<and> v = JStr (trim s))"
  by (auto dest!: z_optional_OK NonEmptyString_OK)

lemma isValid_OK: "isValid r \<Longrightarrow> \<exists>v. r = OK v"
  by (cases r) auto

lemma RegistryDependency_OK:
  "fst (RegistryDependency p data) = OK v \<Longrightarrow>
     \<exists>s. data = JStr s \<and> v = JStr s \<and> rx_test RegistryPattern s"
  unfolding RegistryDependency_def
  by (auto dest!: z_string_OK split: if_splits)

lemma GithubRef_OK:
  "fst (GithubRef p data) = OK v \<Longrightarrow>
     \<exists>s. data = JStr s \<and> v = JStr s \<and> rx_test GithubRefPattern s"
  unfolding GithubRef_def
  by (auto dest!: z_string_OK split: if_splits)

lemma GithubDependency_OK:
  assumes "fst (GithubDependency p data) = OK v"
  shows "\<exists>kvs fo. data = JObj kvs \<and> v = JObj fo
     \<and> set (map fst kvs) \<subseteq> set [str ''branch'', str ''gh'', str ''path'', str ''rev'', str ''tag'']
     \<and> (\<forall>k. js_in k fo \<longrightarrow> k \<in> set [str ''branch'', str ''gh'', str ''path'', str ''rev'', str ''tag''])
     \<and> js_in (str ''gh'') fo
     \<and> (\<exists>g. js_get kvs (str ''gh'') = JStr g \<and> js_get fo (str ''gh'') = JStr g
              \<and> rx_test GithubRefPattern g)
     \<and> (\<forall>f\<in>set [str ''branch'', str ''path'', str ''rev'', str ''tag''].
           (js_get kvs f = JUndef \<and> js_get fo f = JUndef)
           \<or> (\<exists>s. js_get kvs f = JStr s \<and> trim s \<noteq> [] \<and> js_get fo f = JStr (trim s)))
     \<and> one_ref_at_most v"
proof -
  let ?shape = "[(str ''branch'', z_optional NonEmptyString), (str ''gh'', GithubRef),
                 (str ''path'', z_optional NonEmptyString), (str ''rev'', z_optional NonEmptyString),
                 (str ''tag'', z_optional NonEmptyString)]"
  from assms have ok: "fst (z_object_strict ?shape p data) = OK v" and ref: "one_ref_at_most v"
    unfolding GithubDependency_def by (auto dest: z_refine_OK)
  from z_object_strict_OK[OF ok] obtain kvs where
    d: "data = JObj kvs" and
    keys: "set (map fst kvs) \<subseteq> set (map fst ?shape)" and
    fields: "\<forall>(k, f)\<in>set ?shape. isValid (fst (f (p @ [k]) (js_get kvs k)))" and
    v: "v = JObj (merge_final [] (object_pairs ?shape p kvs))"
    by blast
  let ?fo = "merge_final [] (object_pairs ?shape p kvs)"
  have dist: "distinct (map fst ?shape)" by simp
  have get: "js_get ?fo k = result_value (fst (f (p @ [k]) (js_get kvs k)))"
    if "(k, f) \<in> set ?shape" for k f
    using object_output_get[OF dist that, of p kvs] that by auto
  from fields obtain g where g: "fst (GithubRef (p @ [str ''gh'']) (js_get kvs (str ''gh''))) = OK g"
    by (auto dest: isValid_OK)
  from GithubRef_OK[OF g] obtain s where
    s: "js_get kvs (str ''gh'') = JStr s" "g = JStr s" "rx_test GithubRefPattern s" by auto
  have gh_get: "js_get ?fo (str ''gh'') = JStr s"
    using get[of "str ''gh''" GithubRef] g s by simp
  have gh_in: "js_in (str ''gh'') ?fo"
    using object_output_in[OF dist, of "str ''gh''" GithubRef p kvs] g s by simp
  have opt: "(js_get kvs f = JUndef \<and> js_get ?fo f = JUndef)
           \<or> (\<exists>s. js_get kvs f = JStr s \<and> trim s \<noteq> [] \<and> js_get ?fo f = JStr (trim s))"
    if f: "f \<in> set [str ''branch'', str ''path'', str ''rev'', str ''tag'']" for f
  proof -
    from f have mem: "(f, z_optional NonEmptyString) \<in> set ?shape" by auto
    with fields obtain w where
      w: "fst (z_optional NonEmptyString (p @ [f]) (js_get kvs f)) = OK w"
      by (auto dest: isValid_OK)
    from get[OF mem] w have "js_get ?fo f = w" by simp
    with optional_NonEmptyString_OK[OF w] show ?thesis by auto
  qed
  have outkeys: "\<forall>k. js_in k ?fo \<longrightarrow> k \<in> set (map fst ?shape)"
    using object_output_keys by blast
  from d v keys outkeys gh_in gh_get s opt ref show ?thesis
    by (intro exI[of _ kvs] exI[of _ ?fo]) (simp del: set_map)
qed

lemma GitDependency_OK:
  assumes "fst (GitDependency p data) = OK v"
  shows "\<exists>kvs fo. data = JObj kvs \<and> v = JObj fo
     \<and> set (map fst kvs) \<subseteq> set [str ''branch'', str ''git'', str ''path'', str ''rev'', str ''tag'']
     \<and> (\<forall>k. js_in k fo \<longrightarrow> k \<in> set [str ''branch'', str ''git'', str ''path'', str ''rev'', str ''tag''])
     \<and> js_in (str ''git'') fo
     \<and> (\<exists>u. js_get kvs (str ''git'') = JStr u \<and> trim u \<noteq> []
              \<and> js_get fo (str ''git'') = JStr (trim u))
     \<and> (\<forall>f\<in>set [str ''branch'', str ''path'', str ''rev'', str ''tag''].
           (js_get kvs f = JUndef \<and> js_get fo f = JUndef)
           \<or> (\<exists>s. js_get kvs f = JStr s \<and> trim s \<noteq> [] \<and> js_get fo f = JStr (trim s)))
     \<and> one_ref_at_most v"
proof -
  let ?shape = "[(str ''branch'', z_optional NonEmptyString), (str ''git'', NonEmptyString),
                 (str ''path'', z_optional NonEmptyString), (str ''rev'', z_optional NonEmptyString),
                 (str ''tag'', z_optional NonEmptyString)]"
  from assms have ok: "fst (z_object_strict ?shape p data) = OK v" and ref: "one_ref_at_most v"
    unfolding GitDependency_def by (auto dest: z_refine_OK)
  from z_object_strict_OK[OF ok] obtain kvs where
    d: "data = JObj kvs" and
    keys: "set (map fst kvs) \<subseteq> set (map fst ?shape)" and
    fields: "\<forall>(k, f)\<in>set ?shape. isValid (fst (f (p @ [k]) (js_get kvs k)))" and
    v: "v = JObj (merge_final [] (object_pairs ?shape p kvs))"
    by blast
  let ?fo = "merge_final [] (object_pairs ?shape p kvs)"
  have dist: "distinct (map fst ?shape)" by simp
  have get: "js_get ?fo k = result_value (fst (f (p @ [k]) (js_get kvs k)))"
    if "(k, f) \<in> set ?shape" for k f
    using object_output_get[OF dist that, of p kvs] that by auto
  from fields obtain g where
    g: "fst (NonEmptyString (p @ [str ''git'']) (js_get kvs (str ''git''))) = OK g"
    by (auto dest: isValid_OK)
  from NonEmptyString_OK[OF g] obtain s where
    s: "js_get kvs (str ''git'') = JStr s" "trim s \<noteq> []" "g = JStr (trim s)" by auto
  have git_get: "js_get ?fo (str ''git'') = JStr (trim s)"
    using get[of "str ''git''" NonEmptyString] g s by simp
  have git_in: "js_in (str ''git'') ?fo"
    using object_output_in[OF dist, of "str ''git''" NonEmptyString p kvs] g s by simp
  have opt: "(js_get kvs f = JUndef \<and> js_get ?fo f = JUndef)
           \<or> (\<exists>s. js_get kvs f = JStr s \<and> trim s \<noteq> [] \<and> js_get ?fo f = JStr (trim s))"
    if f: "f \<in> set [str ''branch'', str ''path'', str ''rev'', str ''tag'']" for f
  proof -
    from f have mem: "(f, z_optional NonEmptyString) \<in> set ?shape" by auto
    with fields obtain w where
      w: "fst (z_optional NonEmptyString (p @ [f]) (js_get kvs f)) = OK w"
      by (auto dest: isValid_OK)
    from get[OF mem] w have "js_get ?fo f = w" by simp
    with optional_NonEmptyString_OK[OF w] show ?thesis by auto
  qed
  have outkeys: "\<forall>k. js_in k ?fo \<longrightarrow> k \<in> set (map fst ?shape)"
    using object_output_keys by blast
  from d v keys outkeys git_in git_get s opt ref show ?thesis
    by (intro exI[of _ kvs] exI[of _ ?fo]) (simp del: set_map)
qed

lemma LocalDependency_OK:
  assumes "fst (LocalDependency p data) = OK v"
  shows "\<exists>kvs fo. data = JObj kvs \<and> v = JObj fo
     \<and> set (map fst kvs) \<subseteq> set [str ''path'']
     \<and> (\<forall>k. js_in k fo \<longrightarrow> k \<in> set [str ''path''])
     \<and> js_in (str ''path'') fo
     \<and> (\<exists>u. js_get kvs (str ''path'') = JStr u \<and> trim u \<noteq> []
              \<and> js_get fo (str ''path'') = JStr (trim u))"
proof -
  let ?shape = "[(str ''path'', NonEmptyString)]"
  from assms have ok: "fst (z_object_strict ?shape p data) = OK v"
    unfolding LocalDependency_def by simp
  from z_object_strict_OK[OF ok] obtain kvs where
    d: "data = JObj kvs" and
    keys: "set (map fst kvs) \<subseteq> set (map fst ?shape)" and
    fields: "\<forall>(k, f)\<in>set ?shape. isValid (fst (f (p @ [k]) (js_get kvs k)))" and
    v: "v = JObj (merge_final [] (object_pairs ?shape p kvs))"
    by blast
  let ?fo = "merge_final [] (object_pairs ?shape p kvs)"
  have dist: "distinct (map fst ?shape)" by simp
  from fields obtain g where
    g: "fst (NonEmptyString (p @ [str ''path'']) (js_get kvs (str ''path''))) = OK g"
    by (auto dest: isValid_OK)
  from NonEmptyString_OK[OF g] obtain s where
    s: "js_get kvs (str ''path'') = JStr s" "trim s \<noteq> []" "g = JStr (trim s)" by auto
  have path_get: "js_get ?fo (str ''path'') = JStr (trim s)"
    using object_output_get[OF dist, of "str ''path''" NonEmptyString p kvs] g s by simp
  have path_in: "js_in (str ''path'') ?fo"
    using object_output_in[OF dist, of "str ''path''" NonEmptyString p kvs] g s by simp
  have outkeys: "\<forall>k. js_in k ?fo \<longrightarrow> k \<in> set (map fst ?shape)"
    using object_output_keys by blast
  from d v keys outkeys path_in path_get s show ?thesis
    by (intro exI[of _ kvs] exI[of _ ?fo]) (simp del: set_map)
qed

lemma ClaudePluginDependency_OK:
  assumes "fst (ClaudePluginDependency p data) = OK v"
  shows "\<exists>kvs fo. data = JObj kvs \<and> v = JObj fo
     \<and> set (map fst kvs) \<subseteq> set [str ''marketplace'', str ''plugin'', str ''type'']
     \<and> (\<forall>k. js_in k fo \<longrightarrow> k \<in> set [str ''marketplace'', str ''plugin'', str ''type''])
     \<and> js_in (str ''type'') fo
     \<and> js_get kvs (str ''type'') = JStr (str ''claude-plugin'')
     \<and> js_get fo (str ''type'') = JStr (str ''claude-plugin'')
     \<and> (\<forall>f\<in>set [str ''marketplace'', str ''plugin''].
           \<exists>s. js_get kvs f = JStr s \<and> trim s \<noteq> [] \<and> js_get fo f = JStr (trim s))"
proof -
  let ?lit = "z_literal (JStr (str ''claude-plugin''))"
  let ?shape = "[(str ''marketplace'', NonEmptyString), (str ''plugin'', NonEmptyString),
                 (str ''type'', ?lit)]"
  from assms have ok: "fst (z_object_strict ?shape p data) = OK v"
    unfolding ClaudePluginDependency_def by simp
  from z_object_strict_OK[OF ok] obtain kvs where
    d: "data = JObj kvs" and
    keys: "set (map fst kvs) \<subseteq> set (map fst ?shape)" and
    fields: "\<forall>(k, f)\<in>set ?shape. isValid (fst (f (p @ [k]) (js_get kvs k)))" and
    v: "v = JObj (merge_final [] (object_pairs ?shape p kvs))"
    by blast
  let ?fo = "merge_final [] (object_pairs ?shape p kvs)"
  have dist: "distinct (map fst ?shape)" by simp
  have get: "js_get ?fo k = result_value (fst (f (p @ [k]) (js_get kvs k)))"
    if "(k, f) \<in> set ?shape" for k f
    using object_output_get[OF dist that, of p kvs] that by auto
  from fields obtain g where
    g: "fst (?lit (p @ [str ''type'']) (js_get kvs (str ''type''))) = OK g"
    by (auto dest: isValid_OK)
  from z_literal_OK[OF g] have
    s: "js_get kvs (str ''type'') = JStr (str ''claude-plugin'')" "g = JStr (str ''claude-plugin'')"
    by auto
  have type_get: "js_get ?fo (str ''type'') = JStr (str ''claude-plugin'')"
    using get[of "str ''type''" ?lit] g s by simp
  have type_in: "js_in (str ''type'') ?fo"
    using object_output_in[OF dist, of "str ''type''" ?lit p kvs] g s by simp
  have req: "\<exists>s. js_get kvs f = JStr s \<and> trim s \<noteq> [] \<and> js_get ?fo f = JStr (trim s)"
    if f: "f \<in> set [str ''marketplace'', str ''plugin'']" for f
  proof -
    from f have mem: "(f, NonEmptyString) \<in> set ?shape" by auto
    with fields obtain w where
      w: "fst (NonEmptyString (p @ [f]) (js_get kvs f)) = OK w"
      by (auto dest: isValid_OK)
    from get[OF mem] w have "js_get ?fo f = w" by simp
    with NonEmptyString_OK[OF w] show ?thesis by auto
  qed
  have outkeys: "\<forall>k. js_in k ?fo \<longrightarrow> k \<in> set (map fst ?shape)"
    using object_output_keys by blast
  from d v keys outkeys type_in type_get s req show ?thesis
    by (intro exI[of _ kvs] exI[of _ ?fo]) (simp del: set_map)
qed

lemma DependencyDeclaration_OK:
  assumes "fst (DependencyDeclaration p data) = OK v"
  shows "fst (RegistryDependency p data) = OK v \<or> fst (GithubDependency p data) = OK v
       \<or> fst (GitDependency p data) = OK v \<or> fst (LocalDependency p data) = OK v
       \<or> fst (ClaudePluginDependency p data) = OK v"
  using z_union_OK[OF assms[unfolded DependencyDeclaration_def]] by auto

lemma DependencyDeclaration_shape:
  assumes "fst (DependencyDeclaration p data) = OK v"
  shows "declaration_shape v"
  using DependencyDeclaration_OK[OF assms]
proof (elim disjE)
  assume "fst (RegistryDependency p data) = OK v"
  from RegistryDependency_OK[OF this] obtain s where "v = JStr s" "rx_test RegistryPattern s"
    by blast
  then show ?thesis by (simp add: declaration_shape_def)
next
  assume "fst (GithubDependency p data) = OK v"
  from GithubDependency_OK[OF this] obtain fo where "v = JObj fo" "js_in (str ''gh'') fo"
    by blast
  then show ?thesis by (simp add: declaration_shape_def)
next
  assume "fst (GitDependency p data) = OK v"
  from GitDependency_OK[OF this] obtain fo where "v = JObj fo" "js_in (str ''git'') fo"
    by blast
  then show ?thesis by (simp add: declaration_shape_def)
next
  assume "fst (LocalDependency p data) = OK v"
  from LocalDependency_OK[OF this] obtain fo where "v = JObj fo" "js_in (str ''path'') fo"
    by blast
  then show ?thesis by (simp add: declaration_shape_def)
next
  assume "fst (ClaudePluginDependency p data) = OK v"
  from ClaudePluginDependency_OK[OF this] obtain fo where "v = JObj fo"
    "js_in (str ''type'') fo" "js_get fo (str ''type'') = JStr (str ''claude-plugin'')"
    by blast
  then show ?thesis by (simp add: declaration_shape_def)
qed

lemma parseRegistryString_Some:
  "rx_test RegistryPattern s \<Longrightarrow> \<exists>v. parseRegistryString s = Some v"
  using registry_patterns_agree[of s]
  by (auto simp: parseRegistryString_def str_match_def rx_test_def Let_def)

lemma parseDependency_declaration_shape:
  assumes "declaration_shape decl"
  shows "\<exists>v. parseDependency alias decl = Inr v"
proof (cases decl)
  case (JStr s)
  with assms have "rx_test RegistryPattern s" by (simp add: declaration_shape_def)
  from parseRegistryString_Some[OF this] JStr show ?thesis
    by (auto simp: parseDependency_def)
next
  case (JObj kvs)
  with assms have "js_in (str ''gh'') kvs \<or> js_in (str ''git'') kvs
          \<or> (js_in (str ''type'') kvs \<and> js_get kvs (str ''type'') = JStr (str ''claude-plugin''))
          \<or> js_in (str ''path'') kvs"
    by (simp add: declaration_shape_def)
  with JObj show ?thesis
    by (simp add: parseDependency_def js_has_def js_prop_def) blast
qed (use assms in \<open>simp_all add: declaration_shape_def\<close>)

lemma process_dependencies_Inr:
  "\<forall>(k, v)\<in>set es. declaration_shape v \<Longrightarrow> \<exists>m'. process_dependencies es m = Inr m'"
proof (induction es arbitrary: m)
  case Nil
  then show ?case by simp
next
  case (Cons e es)
  obtain k v where e: "e = (k, v)" by (cases e) auto
  with Cons.prems have "declaration_shape v" by simp
  from parseDependency_declaration_shape[OF this, of k] obtain w where
    w: "parseDependency k v = Inr w" by auto
  from Cons.prems have "\<forall>(k, v)\<in>set es. declaration_shape v" by simp
  from Cons.IH[OF this, of "js_set k w m"] e w show ?case by simp
qed

lemma AgentsSchema_empty: "AgentsSchema p (JObj []) = (OK (JObj []), [])"
  by (simp add: AgentsSchema_def z_record_JObj record_pairs_def record_issues_def mk_result_def)

lemma DependenciesSchema_empty: "DependenciesSchema p (JObj []) = (OK (JObj []), [])"
  by (simp add: DependenciesSchema_def z_record_JObj record_pairs_def record_issues_def
      mk_result_def)

lemma DependenciesSchema_OK:
  assumes "fst (DependenciesSchema p data) = OK v"
  shows "\<exists>kvs out. data = JObj kvs \<and> v = JObj out
           \<and> out = merge_final [] (record_pairs Alias DependencyDeclaration p kvs)
           \<and> (\<forall>k\<in>set (map fst kvs). isValid (fst (Alias (p @ [k]) (JStr k)))
                  \<and> isValid (fst (DependencyDeclaration (p @ [k]) (js_get kvs k))))
           \<and> (\<forall>(k, w)\<in>set out. declaration_shape w)"
proof -
  from z_record_OK[OF assms[unfolded DependenciesSchema_def]] obtain kvs where
    d: "data = JObj kvs" and
    a: "\<forall>k\<in>set (map fst kvs). isValid (fst (Alias (p @ [k]) (JStr k)))
           \<and> isValid (fst (DependencyDeclaration (p @ [k]) (js_get kvs k)))" and
    v: "v = JObj (merge_final [] (record_pairs Alias DependencyDeclaration p kvs))"
    by blast
  have "declaration_shape w"
    if "(k, w) \<in> set (merge_final [] (record_pairs Alias DependencyDeclaration p kvs))" for k w
  proof -
    from merge_final_entries[OF that] obtain kr vr al where
      pr: "(kr, vr, al) \<in> set (record_pairs Alias DependencyDeclaration p kvs)"
      and w: "w = result_value vr" by auto
    from pr obtain key where key: "key \<in> set (map fst kvs)"
      and vr: "vr = fst (DependencyDeclaration (p @ [key]) (js_get kvs key))"
      by (auto simp: record_pairs_def)
    from a key vr obtain w' where w': "vr = OK w'" by (auto dest: isValid_OK)
    with vr have "fst (DependencyDeclaration (p @ [key]) (js_get kvs key)) = OK w'" by simp
    from DependencyDeclaration_shape[OF this] w w' show ?thesis by simp
  qed
  with d a v show ?thesis by blast
qed

lemma ManifestSchema_OK:
  assumes "fst (ManifestSchema p raw) = OK manifest"
  shows "\<exists>top fo. raw = JObj top \<and> manifest = JObj fo
     \<and> set (map fst top)
         \<subseteq> set [str ''agents'', str ''dependencies'', str ''exports'', str ''package'']
     \<and> fst (z_default (z_optional AgentsSchema) (JObj []) (p @ [str ''agents''])
              (js_get top (str ''agents''))) = OK (js_get fo (str ''agents''))
     \<and> fst (z_default (z_optional DependenciesSchema) (JObj []) (p @ [str ''dependencies''])
              (js_get top (str ''dependencies''))) = OK (js_get fo (str ''dependencies''))
     \<and> fst (z_optional ExportsSchema (p @ [str ''exports''])
              (js_get top (str ''exports''))) = OK (js_get fo (str ''exports''))
     \<and> fst (z_optional PackageSchema (p @ [str ''package''])
              (js_get top (str ''package''))) = OK (js_get fo (str ''package''))"
proof -
  let ?shape = "[(str ''agents'', z_default (z_optional AgentsSchema) (JObj [])),
                 (str ''dependencies'', z_default (z_optional DependenciesSchema) (JObj [])),
                 (str ''exports'', z_optional ExportsSchema),
                 (str ''package'', z_optional PackageSchema)]"
  from assms have ok: "fst (z_object_strict ?shape p raw) = OK manifest"
    unfolding ManifestSchema_def by simp
  from z_object_strict_OK[OF ok] obtain top where
    d: "raw = JObj top" and
    keys: "set (map fst top) \<subseteq> set (map fst ?shape)" and
    fields: "\<forall>(k, f)\<in>set ?shape. isValid (fst (f (p @ [k]) (js_get top k)))" and
    v: "manifest = JObj (merge_final [] (object_pairs ?shape p top))"
    by blast
  let ?fo = "merge_final [] (object_pairs ?shape p top)"
  have dist: "distinct (map fst ?shape)" by simp
  have get: "fst (f (p @ [k]) (js_get top k)) = OK (js_get ?fo k)"
    if "(k, f) \<in> set ?shape" for k f
  proof -
    from fields that obtain w where w: "fst (f (p @ [k]) (js_get top k)) = OK w"
      by (auto dest: isValid_OK)
    from that have "k \<noteq> str ''__proto__''" by auto
    from object_output_get[OF dist that this, of p top] w show ?thesis by simp
  qed
  have a: "fst (z_default (z_optional AgentsSchema) (JObj []) (p @ [str ''agents''])
              (js_get top (str ''agents''))) = OK (js_get ?fo (str ''agents''))"
    by (rule get) simp
  have b: "fst (z_default (z_optional DependenciesSchema) (JObj []) (p @ [str ''dependencies''])
              (js_get top (str ''dependencies''))) = OK (js_get ?fo (str ''dependencies''))"
    by (rule get) simp
  have c: "fst (z_optional ExportsSchema (p @ [str ''exports''])
              (js_get top (str ''exports''))) = OK (js_get ?fo (str ''exports''))"
    by (rule get) simp
  have e: "fst (z_optional PackageSchema (p @ [str ''package''])
              (js_get top (str ''package''))) = OK (js_get ?fo (str ''package''))"
    by (rule get) simp
  from d v keys a b c e show ?thesis
    by (intro exI[of _ top] exI[of _ ?fo]) (simp del: set_map)
qed

lemma dependencies_field_OK:
  assumes "fst (z_default (z_optional DependenciesSchema) (JObj []) p x) = OK dv"
  shows "\<exists>out. dv = JObj out \<and> (\<forall>(k, w)\<in>set out. declaration_shape w)"
proof -
  from z_default_OK[OF assms] have
    "fst (z_optional DependenciesSchema p (JObj [])) = OK dv
     \<or> (x \<noteq> JUndef \<and> fst (z_optional DependenciesSchema p x) = OK dv)" by auto
  then show ?thesis
  proof
    assume "fst (z_optional DependenciesSchema p (JObj [])) = OK dv"
    then have "dv = JObj []" by (simp add: z_optional_def DependenciesSchema_empty)
    then show ?thesis by simp
  next
    assume "x \<noteq> JUndef \<and> fst (z_optional DependenciesSchema p x) = OK dv"
    then have "fst (DependenciesSchema p x) = OK dv" by (auto simp: z_optional_def)
    from DependenciesSchema_OK[OF this] show ?thesis by blast
  qed
qed

lemma zod_parse_Inr: "zod_parse schema data = Inr v \<longleftrightarrow> fst (schema [] data) = OK v"
  by (auto simp: zod_parse_def split: prod.splits SyncParseReturnType.splits)

lemma zod_parse_Inl:
  "zod_parse schema data = Inl issues \<longleftrightarrow>
     \<not> isValid (fst (schema [] data)) \<and> issues = snd (schema [] data)"
  by (auto simp: zod_parse_def split: prod.splits SyncParseReturnType.splits)

lemma parse_cases:
  obtains (toml) err where "parseToml contents = Inl err"
      and "parse parseToml errorMap contents =
             Inl \<lparr>type = invalid_toml,
                  message = (case err of ErrorInstance m \<Rightarrow> m
                             | NotAnError \<Rightarrow> str ''Invalid TOML syntax''),
                  cause = Some (ThrownCause err)\<rparr>"
  | (manifest) raw zod_issues where "parseToml contents = Inr raw"
      and "zod_parse ManifestSchema raw = Inl zod_issues"
      and "parse parseToml errorMap contents =
             Inl \<lparr>type = invalid_manifest,
                  message = str ''Invalid manifest: ''
                    @ join (str ''; '')
                        (map (\<lambda>i. join (str ''.'') (path i) @ str '': ''
                                     @ issue_message errorMap i) zod_issues),
                  cause = Some (ZodErrorCause zod_issues)\<rparr>"
  | (dependency) raw manifest e where "parseToml contents = Inr raw"
      and "zod_parse ManifestSchema raw = Inr manifest"
      and "process_dependencies (Object_entries (js_prop manifest (str ''dependencies''))) [] = Inl e"
      and "parse parseToml errorMap contents = Inl e"
  | (ok) raw manifest deps where "parseToml contents = Inr raw"
      and "zod_parse ManifestSchema raw = Inr manifest"
      and "process_dependencies (Object_entries (js_prop manifest (str ''dependencies''))) [] = Inr deps"
      and "parse parseToml errorMap contents =
             Inr \<lparr>package = (if truthy (js_prop manifest (str ''package''))
                             then Some (js_prop manifest (str ''package'')) else None),
                  agents = process_agents (Object_entries (js_prop manifest (str ''agents''))) [],
                  dependencies = deps,
                  exports = (if truthy (js_prop manifest (str ''exports''))
                             then Some (js_prop manifest (str ''exports'')) else None)\<rparr>"
proof (cases "parseToml contents")
  case (Inl err)
  then show ?thesis using toml by (simp add: parse_def)
next
  case (Inr raw)
  show ?thesis
  proof (cases "zod_parse ManifestSchema raw")
    case zi: (Inl zod_issues)
    with Inr show ?thesis using manifest by (simp add: parse_def Let_def)
  next
    case zr: (Inr m)
    show ?thesis
    proof (cases "process_dependencies (Object_entries (js_prop m (str ''dependencies''))) []")
      case (Inl e)
      with Inr zr show ?thesis using dependency by (simp add: parse_def Let_def)
    next
      case pr: (Inr deps)
      with Inr zr show ?thesis using ok by (simp add: parse_def Let_def)
    qed
  qed
qed

lemma manifest_dependencies_shape:
  assumes "zod_parse ManifestSchema raw = Inr manifest"
  shows "\<forall>(k, w)\<in>set (Object_entries (js_prop manifest (str ''dependencies''))).
           declaration_shape w"
proof -
  from assms have "fst (ManifestSchema [] raw) = OK manifest" by (simp add: zod_parse_Inr)
  from ManifestSchema_OK[OF this] obtain fo where m: "manifest = JObj fo"
    and d: "fst (z_default (z_optional DependenciesSchema) (JObj []) ([] @ [str ''dependencies''])
              (js_get (Object_entries raw) (str ''dependencies'')))
            = OK (js_get fo (str ''dependencies''))"
    by (auto simp: Object_entries_def)
  from dependencies_field_OK[OF d] m show ?thesis
    by (auto simp: js_prop_def Object_entries_def)
qed

lemma rx_run_One_Chr: "rx_run (One (Chr c)) (c # s) = [([], s)]"
  by simp

lemma rx_run_One_Chr_fail: "s = [] \<or> hd s \<noteq> c \<Longrightarrow> rx_run (One (Chr c)) s = []"
  by (cases s) auto

lemma rx_run_Plus_first:
  assumes "m \<noteq> []" and "\<forall>c\<in>set m. atom_ok a c" and "rest = [] \<or> \<not> atom_ok a (hd rest)"
  shows "\<exists>t. rx_run (Plus a) (m @ rest) = ([], rest) # t"
proof -
  from many1_first[OF assms] obtain t where "many1 (atom_ok a) (m @ rest) = rest # t" by auto
  then show ?thesis by simp
qed

lemma rx_run_Grp_first:
  assumes "rx_run r s = (c, rest) # t"
  shows "\<exists>t'. rx_run (Grp r) s = (Some (take (length s - length rest) s) # c, rest) # t'"
  using assms by simp

lemma rx_run_Seq_first:
  assumes "rx_run r1 s = (c1, s1) # t1" and "rx_run r2 s1 = (c2, s2) # t2"
  shows "\<exists>t. rx_run (Seq r1 r2) s = (c1 @ c2, s2) # t"
  using assms by simp

lemma rx_run_Seq_fail: "rx_run r1 s = [] \<Longrightarrow> rx_run (Seq r1 r2) s = []"
  by simp

lemma rx_exec_first: "rx_run r s = (c, []) # t \<Longrightarrow> rx_exec r s = Some c"
  by (simp add: rx_exec_def)

lemma id_class_at [simp]: "\<not> atom_ok id_class 64"
  by (simp add: id_class_def)

lemma id_class_slash [simp]: "\<not> atom_ok id_class 47"
  by (simp add: id_class_def)

text \<open>The part \<open>name@version\<close> of the registry pattern.\<close>

lemma name_version_first:
  assumes name: "name \<noteq> []" "\<forall>c\<in>set name. atom_ok id_class c"
      and version: "version \<noteq> []" "\<forall>c\<in>set version. atom_ok Dot c"
  shows "\<exists>t. rx_run (Seq (Grp (Plus id_class))
                        (Seq (One (Chr (of_char CHR ''@''))) (Grp (Plus Dot))))
                   (name @ str ''@'' @ version)
              = ([Some name, Some version], []) # t"
proof -
  let ?s = "name @ str ''@'' @ version"
  have "\<exists>t. rx_run (Plus id_class) ?s = ([], str ''@'' @ version) # t"
    by (rule rx_run_Plus_first[OF name]) simp
  then obtain t1 where
    "rx_run (Plus id_class) ?s = ([], str ''@'' @ version) # t1" by blast
  from rx_run_Grp_first[OF this] obtain t2 where
    g1: "rx_run (Grp (Plus id_class)) ?s = ([Some name], str ''@'' @ version) # t2" by auto
  have at: "rx_run (One (Chr (of_char CHR ''@''))) (str ''@'' @ version) = ([], version) # []"
    by simp
  have "\<exists>t. rx_run (Plus Dot) (version @ []) = ([], []) # t"
    by (rule rx_run_Plus_first[OF version]) simp
  then obtain t3 where
    "rx_run (Plus Dot) version = ([], []) # t3" by auto
  from rx_run_Grp_first[OF this] obtain t4 where
    g2: "rx_run (Grp (Plus Dot)) version = ([Some version], []) # t4" by auto
  from rx_run_Seq_first[OF at g2] obtain t5 where
    "rx_run (Seq (One (Chr (of_char CHR ''@''))) (Grp (Plus Dot))) (str ''@'' @ version)
       = ([Some version], []) # t5" by auto
  from rx_run_Seq_first[OF g1 this] show ?thesis by simp
qed

lemma REGISTRY_PATTERN_name_version:
  assumes name: "name \<noteq> []" "\<forall>c\<in>set name. atom_ok id_class c"
      and version: "version \<noteq> []" "\<forall>c\<in>set version. atom_ok Dot c"
  shows "rx_exec REGISTRY_PATTERN (name @ str ''@'' @ version) = Some [None, Some name, Some version]"
proof -
  let ?s = "name @ str ''@'' @ version"
  let ?org = "Seq (One (Chr (of_char CHR ''@''))) (Seq (Grp (Plus id_class)) (One (Chr (of_char CHR ''/''))))"
  from name have "hd ?s \<noteq> of_char CHR ''@''"
    by (cases name) auto
  then have "rx_run (One (Chr (of_char CHR ''@''))) ?s = []"
    using name by (intro rx_run_One_Chr_fail) simp
  then have "rx_run ?org ?s = []" by (rule rx_run_Seq_fail)
  then have o: "rx_run (Opt ?org) ?s = ([None], ?s) # []" by simp
  from name_version_first[OF assms] obtain t where
    "rx_run (Seq (Grp (Plus id_class)) (Seq (One (Chr (of_char CHR ''@''))) (Grp (Plus Dot)))) ?s
       = ([Some name, Some version], []) # t" by auto
  from rx_run_Seq_first[OF o this] obtain t' where
    "rx_run REGISTRY_PATTERN ?s = ([None, Some name, Some version], []) # t'"
    by (auto simp: REGISTRY_PATTERN_def)
  then show ?thesis by (rule rx_exec_first)
qed

lemma REGISTRY_PATTERN_org_name_version:
  assumes org: "org \<noteq> []" "\<forall>c\<in>set org. atom_ok id_class c"
      and name: "name \<noteq> []" "\<forall>c\<in>set name. atom_ok id_class c"
      and version: "version \<noteq> []" "\<forall>c\<in>set version. atom_ok Dot c"
  shows "rx_exec REGISTRY_PATTERN (str ''@'' @ org @ str ''/'' @ name @ str ''@'' @ version)
           = Some [Some org, Some name, Some version]"
proof -
  let ?nv = "name @ str ''@'' @ version"
  let ?s = "str ''@'' @ org @ str ''/'' @ ?nv"
  let ?org = "Seq (One (Chr (of_char CHR ''@''))) (Seq (Grp (Plus id_class)) (One (Chr (of_char CHR ''/''))))"
  have at: "rx_run (One (Chr (of_char CHR ''@''))) ?s = ([], org @ str ''/'' @ ?nv) # []"
    by simp
  have "\<exists>t. rx_run (Plus id_class) (org @ str ''/'' @ ?nv) = ([], str ''/'' @ ?nv) # t"
    by (rule rx_run_Plus_first[OF org]) simp
  then obtain t1 where
    "rx_run (Plus id_class) (org @ str ''/'' @ ?nv) = ([], str ''/'' @ ?nv) # t1" by blast
  from rx_run_Grp_first[OF this] obtain t2 where
    g: "rx_run (Grp (Plus id_class)) (org @ str ''/'' @ ?nv) = ([Some org], str ''/'' @ ?nv) # t2"
    by auto
  have sl: "rx_run (One (Chr (of_char CHR ''/''))) (str ''/'' @ ?nv) = ([], ?nv) # []"
    by simp
  from rx_run_Seq_first[OF g sl] obtain t3 where
    "rx_run (Seq (Grp (Plus id_class)) (One (Chr (of_char CHR ''/'')))) (org @ str ''/'' @ ?nv)
       = ([Some org], ?nv) # t3" by auto
  from rx_run_Seq_first[OF at this] obtain t4 where
    "rx_run ?org ?s = ([Some org], ?nv) # t4" by auto
  then obtain t5 where o: "rx_run (Opt ?org) ?s = ([Some org], ?nv) # t5" by simp
  from name_version_first[OF name version] obtain t where
    "rx_run (Seq (Grp (Plus id_class)) (Seq (One (Chr (of_char CHR ''@''))) (Grp (Plus Dot)))) ?nv
       = ([Some name, Some version], []) # t" by auto
  from rx_run_Seq_first[OF o this] obtain t' where
    "rx_run REGISTRY_PATTERN ?s = ([Some org, Some name, Some version], []) # t'"
    by (auto simp: REGISTRY_PATTERN_def)
  then show ?thesis by (rule rx_exec_first)
qed

lemma parseRegistryString_name_version:
  assumes name: "name \<noteq> []" "\<forall>c\<in>set name. atom_ok id_class c"
      and version: "version \<noteq> []" "\<forall>c\<in>set version. atom_ok Dot c"
  shows "parseRegistryString (name @ str ''@'' @ version)
           = Some (ValidatedRegistryDependency (JStr name) None (JStr version))"
  using REGISTRY_PATTERN_name_version[OF assms]
  by (simp add: parseRegistryString_def str_match_def capture_def)

lemma parseRegistryString_org_name_version:
  assumes org: "org \<noteq> []" "\<forall>c\<in>set org. atom_ok id_class c"
      and name: "name \<noteq> []" "\<forall>c\<in>set name. atom_ok id_class c"
      and version: "version \<noteq> []" "\<forall>c\<in>set version. atom_ok Dot c"
  shows "parseRegistryString (str ''@'' @ org @ str ''/'' @ name @ str ''@'' @ version)
           = Some (ValidatedRegistryDependency (JStr name) (Some (JStr org)) (JStr version))"
  using REGISTRY_PATTERN_org_name_version[OF assms] org(1)
  by (simp add: parseRegistryString_def str_match_def capture_def)

lemma sublist_prepend: "sublist x ys \<Longrightarrow> sublist x (ps @ ys)"
proof -
  assume "sublist x ys"
  then obtain a b where "ys = a @ x @ b" by (auto simp: sublist_def)
  then have "ps @ ys = (ps @ a) @ x @ b" by simp
  then show ?thesis unfolding sublist_def by blast
qed

lemma sublist_join: "x \<in> set xs \<Longrightarrow> sublist x (join sep xs)"
proof (induction sep xs rule: join.induct)
  case (1 sep)
  then show ?case by simp
next
  case (2 sep x')
  then show ?case by simp
next
  case (3 sep x' y ys)
  show ?case
  proof (cases "x = x'")
    case True
    then show ?thesis by (simp add: sublist_append_rightI)
  next
    case False
    with 3 have "sublist x (join sep (y # ys))" by simp
    then have "sublist x ((x' @ sep) @ join sep (y # ys))"
      by (rule sublist_prepend)
    then show ?thesis by simp
  qed
qed

lemma object_field_issues:
  assumes "(k, f) \<in> set shape"
  shows "set (snd (f (p @ [k]) (js_get kvs k))) \<subseteq> set (snd (z_object_strict shape p (JObj kvs)))"
  using assms by (force simp: z_object_strict_JObj field_issues_def)

lemma record_value_issues:
  assumes "k \<in> set (map fst kvs)"
  shows "set (snd (vt (p @ [k]) (js_get kvs k))) \<subseteq> set (snd (z_record kt vt p (JObj kvs)))"
  using assms by (force simp: z_record_JObj record_issues_def)

lemma object_field_not_valid:
  assumes "(k, f) \<in> set shape" and "\<not> isValid (fst (f (p @ [k]) (js_get kvs k)))"
  shows "\<not> isValid (fst (z_object_strict shape p (JObj kvs)))"
proof
  assume "isValid (fst (z_object_strict shape p (JObj kvs)))"
  then obtain v where "fst (z_object_strict shape p (JObj kvs)) = OK v" by (auto dest: isValid_OK)
  from z_object_strict_OK[OF this] assms show False by auto
qed

lemma object_extra_key_not_valid:
  assumes "js_in k kvs" and "k \<notin> set (map fst shape)"
  shows "\<not> isValid (fst (z_object_strict shape p (JObj kvs)))"
proof
  assume "isValid (fst (z_object_strict shape p (JObj kvs)))"
  then obtain v where "fst (z_object_strict shape p (JObj kvs)) = OK v" by (auto dest: isValid_OK)
  from z_object_strict_OK[OF this] assms show False by (auto simp: js_in_def)
qed

lemma record_value_not_valid:
  assumes "k \<in> set (map fst kvs)" and "\<not> isValid (fst (vt (p @ [k]) (js_get kvs k)))"
  shows "\<not> isValid (fst (z_record kt vt p (JObj kvs)))"
proof
  assume "isValid (fst (z_record kt vt p (JObj kvs)))"
  then obtain v where "fst (z_record kt vt p (JObj kvs)) = OK v" by (auto dest: isValid_OK)
  from z_record_OK[OF this] assms show False by auto
qed

text \<open>A declaration in the dependencies table of a document, seen from the whole manifest.\<close>

lemma dependencies_field_JObj:
  "z_default (z_optional DependenciesSchema) (JObj []) p (JObj deps) = DependenciesSchema p (JObj deps)"
  by (simp add: z_default_def z_optional_def)

lemma manifest_declaration_issues:
  assumes "js_get tbl (str ''dependencies'') = JObj deps" and "js_in alias deps"
  shows "set (snd (DependencyDeclaration [str ''dependencies'', alias] (js_get deps alias)))
           \<subseteq> set (snd (ManifestSchema [] (JObj tbl)))"
proof -
  from assms(2) have k: "alias \<in> set (map fst deps)" by (simp add: js_in_def)
  have "set (snd (DependencyDeclaration ([str ''dependencies''] @ [alias]) (js_get deps alias)))
          \<subseteq> set (snd (DependenciesSchema [str ''dependencies''] (JObj deps)))"
    unfolding DependenciesSchema_def by (rule record_value_issues[OF k])
  also have "\<dots> = set (snd (z_default (z_optional DependenciesSchema) (JObj [])
                              ([] @ [str ''dependencies'']) (js_get tbl (str ''dependencies''))))"
    using assms(1) by (simp add: dependencies_field_JObj)
  also have "\<dots> \<subseteq> set (snd (ManifestSchema [] (JObj tbl)))"
    unfolding ManifestSchema_def by (rule object_field_issues) simp
  finally show ?thesis by simp
qed

lemma manifest_declaration_not_valid:
  assumes "js_get tbl (str ''dependencies'') = JObj deps" and "js_in alias deps"
      and "\<not> isValid (fst (DependencyDeclaration [str ''dependencies'', alias] (js_get deps alias)))"
  shows "\<not> isValid (fst (ManifestSchema [] (JObj tbl)))"
proof -
  from assms(2) have k: "alias \<in> set (map fst deps)" by (simp add: js_in_def)
  from assms(3) have
    "\<not> isValid (fst (DependencyDeclaration ([str ''dependencies''] @ [alias]) (js_get deps alias)))"
    by simp
  from record_value_not_valid[where vt = DependencyDeclaration and kt = Alias
      and p = "[str ''dependencies'']", OF k this] have
    "\<not> isValid (fst (DependenciesSchema [str ''dependencies''] (JObj deps)))"
    by (simp add: DependenciesSchema_def)
  then have "\<not> isValid (fst (z_default (z_optional DependenciesSchema) (JObj [])
                              ([] @ [str ''dependencies'']) (js_get tbl (str ''dependencies''))))"
    using assms(1) by (simp add: dependencies_field_JObj)
  then show ?thesis
    unfolding ManifestSchema_def by (intro object_field_not_valid) simp_all
qed

text \<open>A document that the schema rejects, and an issue of it in the message.\<close>

lemma parse_invalid_manifest:
  assumes "parseToml contents = Inr raw" and "\<not> isValid (fst (ManifestSchema [] raw))"
  shows "\<exists>e. parse parseToml errorMap contents = Inl e \<and> type e = invalid_manifest
           \<and> (\<forall>i\<in>set (snd (ManifestSchema [] raw)).
                 sublist (join (str ''.'') (path i) @ str '': '' @ issue_message errorMap i)
                         (message e))"
proof -
  let ?fmt = "\<lambda>i. join (str ''.'') (path i) @ str '': '' @ issue_message errorMap i"
  from assms(2) have z: "zod_parse ManifestSchema raw = Inl (snd (ManifestSchema [] raw))"
    by (simp add: zod_parse_Inl)
  have "sublist (?fmt i)
          (str ''Invalid manifest: '' @ join (str ''; '') (map ?fmt (snd (ManifestSchema [] raw))))"
    if "i \<in> set (snd (ManifestSchema [] raw))" for i
  proof -
    from that have "?fmt i \<in> set (map ?fmt (snd (ManifestSchema [] raw)))" by simp
    from sublist_join[OF this] show ?thesis by (rule sublist_prepend)
  qed
  with assms(1) z show ?thesis by (simp add: parse_def Let_def)
qed

lemma DependencyDeclaration_bad_string:
  assumes "\<not> rx_test RegistryPattern s"
  shows "DependencyDeclaration p (JStr s)
           = (DIRTY (JStr s),
              [\<lparr>code = invalid_string, path = p,
                custom_message = Some (str ''Must be in format ''
                                       @ quoted (str ''[@org/]name@version''))\<rparr>])"
  using assms
  by (simp add: DependencyDeclaration_def z_union_def RegistryDependency_def z_string_def
      GithubDependency_def GitDependency_def LocalDependency_def ClaudePluginDependency_def
      z_refine_def z_object_strict_def mk_result_def)

lemma DependencyDeclaration_good_string:
  assumes "rx_test RegistryPattern s"
  shows "DependencyDeclaration p (JStr s) = (OK (JStr s), [])"
  using assms
  by (simp add: DependencyDeclaration_def z_union_def RegistryDependency_def z_string_def
      mk_result_def)

lemma Alias_valid:
  assumes "trim a \<noteq> []"
      and "\<not> js_includes (trim a) (str ''/'')" and "\<not> js_includes (trim a) [92]"
      and "\<not> js_includes (trim a) (str ''.'')" and "\<not> js_includes (trim a) (str '':'')"
  shows "Alias p (JStr a) = (OK (JStr (trim a)), [])"
  using assms
  by (simp add: Alias_def z_pipe_def trim_transform_JStr z_refine_def z_string_def
      mk_result_def string_of_def)

lemma rx_test_RegistryPattern_name_version:
  assumes "name \<noteq> []" "\<forall>c\<in>set name. atom_ok id_class c"
      and "version \<noteq> []" "\<forall>c\<in>set version. atom_ok Dot c"
  shows "rx_test RegistryPattern (name @ str ''@'' @ version)"
  using REGISTRY_PATTERN_name_version[OF assms]
    registry_patterns_agree[of "name @ str ''@'' @ version"]
  by (simp add: rx_test_def)

lemma rx_test_RegistryPattern_org_name_version:
  assumes "org \<noteq> []" "\<forall>c\<in>set org. atom_ok id_class c"
      and "name \<noteq> []" "\<forall>c\<in>set name. atom_ok id_class c"
      and "version \<noteq> []" "\<forall>c\<in>set version. atom_ok Dot c"
  shows "rx_test RegistryPattern (str ''@'' @ org @ str ''/'' @ name @ str ''@'' @ version)"
  using REGISTRY_PATTERN_org_name_version[OF assms]
    registry_patterns_agree[of "str ''@'' @ org @ str ''/'' @ name @ str ''@'' @ version"]
  by (simp add: rx_test_def)

lemma truthy_optional_string:
  "x = JUndef \<or> (\<exists>s. s \<noteq> [] \<and> x = JStr s) \<Longrightarrow> truthy x = (x \<noteq> JUndef)"
  by auto

lemma git_fields_parseDependency:
  assumes fields: "\<forall>f\<in>set [str ''branch'', str ''path'', str ''rev'', str ''tag''].
           (js_get kvs f = JUndef \<and> js_get fo f = JUndef)
           \<or> (\<exists>s. js_get kvs f = JStr s \<and> trim s \<noteq> [] \<and> js_get fo f = JStr (trim s))"
      and key: "js_in (str ''gh'') fo \<or> js_in (str ''git'') fo"
  shows "parseDependency a (JObj fo)
           = Inr ((if js_in (str ''gh'') fo
                   then ValidatedGithubDependency (js_get fo (str ''gh''))
                   else ValidatedGitDependency (js_get fo (str ''git'')))
                  (if js_get fo (str ''tag'') \<noteq> JUndef
                   then Some \<lparr>ref_type = tag, ref_value = js_get fo (str ''tag'')\<rparr>
                   else if js_get fo (str ''branch'') \<noteq> JUndef
                   then Some \<lparr>ref_type = branch, ref_value = js_get fo (str ''branch'')\<rparr>
                   else if js_get fo (str ''rev'') \<noteq> JUndef
                   then Some \<lparr>ref_type = rev, ref_value = js_get fo (str ''rev'')\<rparr>
                   else None)
                  (if js_get fo (str ''path'') \<noteq> JUndef
                   then Some (js_get fo (str ''path'')) else None))"
proof -
  have t: "truthy (js_get fo f) = (js_get fo f \<noteq> JUndef)"
    if "f \<in> set [str ''branch'', str ''path'', str ''rev'', str ''tag'']" for f
  proof -
    from fields that have "js_get fo f = JUndef \<or> (\<exists>s. s \<noteq> [] \<and> js_get fo f = JStr s)"
      by blast
    then show ?thesis by (rule truthy_optional_string)
  qed
  have tt: "truthy (js_get fo (str ''tag'')) = (js_get fo (str ''tag'') \<noteq> JUndef)"
    by (rule t) simp
  have tb: "truthy (js_get fo (str ''branch'')) = (js_get fo (str ''branch'') \<noteq> JUndef)"
    by (rule t) simp
  have tr: "truthy (js_get fo (str ''rev'')) = (js_get fo (str ''rev'') \<noteq> JUndef)"
    by (rule t) simp
  have tp: "truthy (js_get fo (str ''path'')) = (js_get fo (str ''path'') \<noteq> JUndef)"
    by (rule t) simp
  have ex: "extractGitRef (JObj fo)
              = (if js_get fo (str ''tag'') \<noteq> JUndef
                 then Some \<lparr>ref_type = tag, ref_value = js_get fo (str ''tag'')\<rparr>
                 else if js_get fo (str ''branch'') \<noteq> JUndef
                 then Some \<lparr>ref_type = branch, ref_value = js_get fo (str ''branch'')\<rparr>
                 else if js_get fo (str ''rev'') \<noteq> JUndef
                 then Some \<lparr>ref_type = rev, ref_value = js_get fo (str ''rev'')\<rparr>
                 else None)"
    unfolding extractGitRef_def js_prop_def js.case tt tb tr by (rule refl)
  show ?thesis
  proof (cases "js_in (str ''gh'') fo")
    case True
    then show ?thesis
      unfolding parseDependency_def js.case js_has_def js_prop_def ex tp by simp
  next
    case False
    with key have "js_in (str ''git'') fo" by simp
    with False show ?thesis
      unfolding parseDependency_def js.case js_has_def js_prop_def ex tp by simp
  qed
qed









lemma js_get_in: "js_get kvs k \<noteq> JUndef \<Longrightarrow> js_in k kvs"
  by (auto simp: js_get_def js_in_def split: option.splits dest: map_of_SomeD intro: rev_image_eqI)

lemma z_optional_JObj: "z_optional schema p (JObj kvs) = schema p (JObj kvs)"
  by (simp add: z_optional_def)














lemma isValid_not_others: "isValid r \<Longrightarrow> \<not> isAborted r \<and> \<not> isDirty r"
  by (cases r) auto

lemma mergeObjectLoop_all_valid:
  assumes "\<forall>(k, vl, a)\<in>set pairs. isValid k \<and> isValid vl"
  shows "mergeObjectLoop False fo pairs = OK (JObj (merge_final fo pairs))"
proof -
  from assms have na: "\<forall>(k, vl, a)\<in>set pairs. \<not> isAborted k \<and> \<not> isAborted vl"
    and nd: "\<not> (\<exists>(k, vl, a)\<in>set pairs. isDirty k \<or> isDirty vl)"
    using isValid_not_others by blast+
  from mergeObjectLoop_not_aborted[OF na, of False fo] nd show ?thesis
    by (simp only: mk_result_def simp_thms if_False)
qed



text \<open>A document and the same document without one entry of its dependencies table.\<close>

lemma map_of_remove_key: "map_of (remove_key a kvs) b = (if b = a then None else map_of kvs b)"
  by (induction kvs) (auto simp: remove_key_def)

lemma js_get_remove_key: "js_get (remove_key a kvs) b = (if b = a then JUndef else js_get kvs b)"
  by (simp add: js_get_def map_of_remove_key)

lemma keys_remove_key: "set (map fst (remove_key a kvs)) = set (map fst kvs) - {a}"
  by (induction kvs) (auto simp: remove_key_def)

lemma keys_without_dependency: "map fst (without_dependency a tbl) = map fst tbl"
  by (induction tbl) (auto simp: without_dependency_def)

lemma map_of_without_dependency:
  "map_of (without_dependency a tbl) k
     = (if k = str ''dependencies''
        then map_option (\<lambda>v. JObj (remove_key a (Object_entries v))) (map_of tbl k)
        else map_of tbl k)"
  by (induction tbl) (auto simp: without_dependency_def)

lemma js_get_without_dependency_other:
  "k \<noteq> str ''dependencies'' \<Longrightarrow> js_get (without_dependency a tbl) k = js_get tbl k"
  by (simp add: js_get_def map_of_without_dependency)

lemma js_get_without_dependency:
  assumes "js_get tbl (str ''dependencies'') = JObj deps"
  shows "js_get (without_dependency a tbl) (str ''dependencies'') = JObj (remove_key a deps)"
proof -
  from assms obtain v where "map_of tbl (str ''dependencies'') = Some v" "v = JObj deps"
    by (auto simp: js_get_def split: option.splits)
  then show ?thesis
    by (simp add: js_get_def map_of_without_dependency Object_entries_def)
qed

lemma Alias_OK: "fst (Alias p (JStr b)) = OK v \<Longrightarrow> v = JStr (trim b)"
  by (auto simp: Alias_def z_pipe_def trim_transform_JStr z_refine_def z_string_def mk_result_def
      Let_def split: if_splits prod.splits SyncParseReturnType.splits)

lemma z_object_strict_accept:
  assumes "set (map fst kvs) \<subseteq> set (map fst shape)"
      and "\<forall>(k, f)\<in>set shape. isValid (fst (f (p @ [k]) (js_get kvs k)))"
  shows "fst (z_object_strict shape p (JObj kvs))
           = OK (JObj (merge_final [] (object_pairs shape p kvs)))"
proof -
  from assms(1) have e: "extra_keys shape kvs = []" by (simp only: extra_keys_empty_iff)
  from assms(2) have "\<forall>(k, vl, a)\<in>set (object_pairs shape p kvs). isValid k \<and> isValid vl"
    by (auto simp: object_pairs_def)
  from mergeObjectLoop_all_valid[OF this, of "[]"] e show ?thesis
    by (simp add: z_object_strict_JObj)
qed

lemma z_record_accept:
  assumes "\<forall>k\<in>set (map fst kvs). isValid (fst (kt (p @ [k]) (JStr k)))
                  \<and> isValid (fst (vt (p @ [k]) (js_get kvs k)))"
  shows "fst (z_record kt vt p (JObj kvs)) = OK (JObj (merge_final [] (record_pairs kt vt p kvs)))"
proof -
  from assms have "\<forall>(k, vl, a)\<in>set (record_pairs kt vt p kvs). isValid k \<and> isValid vl"
    by (auto simp: record_pairs_def)
  from mergeObjectLoop_all_valid[OF this, of "[]"] show ?thesis
    by (simp add: z_record_JObj)
qed

lemma merge_final_get_same:
  assumes "\<forall>(kr, vr, al)\<in>set pairs. string_of (result_value kr) = k
             \<longrightarrow> result_value kr \<noteq> JStr (str ''__proto__'') \<and> result_value vr = v \<and> al"
  shows "js_get (merge_final fo pairs) k
           = (if k \<in> set (map pair_key pairs) then v else js_get fo k)"
  using assms
proof (induction pairs arbitrary: fo)
  case Nil
  then show ?case by simp
next
  case (Cons pr pairs)
  obtain kr vr al where pr: "pr = (kr, vr, al)" by (cases pr) auto
  from Cons.prems have rest: "\<forall>(kr, vr, al)\<in>set pairs. string_of (result_value kr) = k
             \<longrightarrow> result_value kr \<noteq> JStr (str ''__proto__'') \<and> result_value vr = v \<and> al"
    by simp
  note IH = Cons.IH[OF rest]
  show ?case
  proof (cases "string_of (result_value kr) = k")
    case True
    with Cons.prems pr have "result_value kr \<noteq> JStr (str ''__proto__'')" "result_value vr = v" al
      by auto
    with True pr show ?thesis
      by (simp add: IH pair_key_def js_get_obj_set)
  next
    case False
    with pr show ?thesis
      by (simp add: IH pair_key_def js_get_obj_set)
  qed
qed

lemma process_dependencies_map_of:
  assumes "distinct (map fst es)" and "process_dependencies es m0 = Inr dm"
      and "map_of es k = Some w"
  shows "\<exists>dep. parseDependency k w = Inr dep \<and> map_of dm k = Some dep"
  using assms
proof (induction es arbitrary: m0)
  case Nil
  then show ?case by simp
next
  case (Cons e es)
  obtain k' w' where e: "e = (k', w')" by (cases e) auto
  from Cons.prems(2) e obtain d' where d': "parseDependency k' w' = Inr d'"
    and rest: "process_dependencies es (js_set k' d' m0) = Inr dm"
    by (auto split: sum.splits)
  from Cons.prems(1) e have dist: "distinct (map fst es)" and notin: "k' \<notin> set (map fst es)"
    by auto
  show ?case
  proof (cases "k = k'")
    case True
    with Cons.prems(3) e have w: "w = w'" by simp
    have keep: "map_of dm' k' = map_of m1 k'"
      if "process_dependencies es m1 = Inr dm'" for m1 dm'
      using that notin
    proof (induction es arbitrary: m1)
      case Nil
      then show ?case by simp
    next
      case (Cons x xs)
      obtain a b where x: "x = (a, b)" by (cases x) auto
      from Cons.prems x obtain c where "parseDependency a b = Inr c"
        and r: "process_dependencies xs (js_set a c m1) = Inr dm'"
        by (auto split: sum.splits)
      from Cons.prems x have "k' \<notin> set (map fst xs)" "a \<noteq> k'" by auto
      from Cons.IH[OF r this(1)] this(2) show ?case by (simp add: map_of_js_set)
    qed
    from keep[OF rest] have "map_of dm k' = Some d'" by (simp add: map_of_js_set)
    with True w d' show ?thesis by simp
  next
    case False
    with Cons.prems(3) e have "map_of es k = Some w" by simp
    from Cons.IH[OF dist rest this] show ?thesis .
  qed
qed

lemma manifest_with_dependency:
  assumes tbl: "js_get tbl (str ''dependencies'') = JObj deps"
      and a: "js_in a deps"
      and al: "isValid (fst (Alias [str ''dependencies'', a] (JStr a)))"
      and dd: "fst (DependencyDeclaration [str ''dependencies'', a] (js_get deps a)) = OK v'"
      and rest: "isValid (fst (ManifestSchema [] (JObj (without_dependency a tbl))))"
  shows "\<exists>fo out. fst (ManifestSchema [] (JObj tbl)) = OK (JObj fo)
           \<and> js_get fo (str ''dependencies'') = JObj out \<and> distinct (map fst out)
           \<and> (\<forall>(k, w)\<in>set out. declaration_shape w)
           \<and> (trim a \<noteq> str ''__proto__''
                \<and> (\<forall>b. js_in b deps \<longrightarrow> trim b = trim a \<longrightarrow> b = a)
              \<longrightarrow> map_of out (trim a) = Some v')"
proof -
  let ?tbl' = "without_dependency a tbl"
  let ?deps' = "remove_key a deps"
  let ?p = "[str ''dependencies'']"
  let ?shape = "[(str ''agents'', z_default (z_optional AgentsSchema) (JObj [])),
                 (str ''dependencies'', z_default (z_optional DependenciesSchema) (JObj [])),
                 (str ''exports'', z_optional ExportsSchema),
                 (str ''package'', z_optional PackageSchema)]"
  from rest obtain manifest' where "fst (ManifestSchema [] (JObj ?tbl')) = OK manifest'"
    by (auto dest: isValid_OK)
  from ManifestSchema_OK[OF this] obtain fo' where
    keys': "set (map fst ?tbl')
              \<subseteq> set [str ''agents'', str ''dependencies'', str ''exports'', str ''package'']" and
    ag': "fst (z_default (z_optional AgentsSchema) (JObj []) ([] @ [str ''agents''])
              (js_get ?tbl' (str ''agents''))) = OK (js_get fo' (str ''agents''))" and
    dp': "fst (z_default (z_optional DependenciesSchema) (JObj []) ([] @ [str ''dependencies''])
              (js_get ?tbl' (str ''dependencies''))) = OK (js_get fo' (str ''dependencies''))" and
    ex': "fst (z_optional ExportsSchema ([] @ [str ''exports''])
              (js_get ?tbl' (str ''exports''))) = OK (js_get fo' (str ''exports''))" and
    pk': "fst (z_optional PackageSchema ([] @ [str ''package''])
              (js_get ?tbl' (str ''package''))) = OK (js_get fo' (str ''package''))"
    by auto
  from keys' have keys: "set (map fst tbl) \<subseteq> set (map fst ?shape)"
    by (simp add: keys_without_dependency del: set_map)
  from ag' have ag: "isValid (fst (z_default (z_optional AgentsSchema) (JObj [])
                       ([] @ [str ''agents'']) (js_get tbl (str ''agents''))))"
    by (simp add: js_get_without_dependency_other)
  from ex' have ex: "isValid (fst (z_optional ExportsSchema ([] @ [str ''exports''])
                       (js_get tbl (str ''exports''))))"
    by (simp add: js_get_without_dependency_other)
  from pk' have pk: "isValid (fst (z_optional PackageSchema ([] @ [str ''package''])
                       (js_get tbl (str ''package''))))"
    by (simp add: js_get_without_dependency_other)
  have g': "js_get ?tbl' (str ''dependencies'') = JObj ?deps'"
    by (rule js_get_without_dependency[OF tbl])
  from dp'[unfolded g'] have
    "fst (DependenciesSchema ?p (JObj ?deps')) = OK (js_get fo' (str ''dependencies''))"
    by (simp add: dependencies_field_JObj)
  from z_record_OK[OF this[unfolded DependenciesSchema_def]] have
    others': "\<forall>k\<in>set (map fst ?deps'). isValid (fst (Alias (?p @ [k]) (JStr k)))
                  \<and> isValid (fst (DependencyDeclaration (?p @ [k]) (js_get ?deps' k)))"
    by blast
  have all: "\<forall>k\<in>set (map fst deps). isValid (fst (Alias (?p @ [k]) (JStr k)))
                  \<and> isValid (fst (DependencyDeclaration (?p @ [k]) (js_get deps k)))"
  proof
    fix k assume k: "k \<in> set (map fst deps)"
    show "isValid (fst (Alias (?p @ [k]) (JStr k)))
            \<and> isValid (fst (DependencyDeclaration (?p @ [k]) (js_get deps k)))"
    proof (cases "k = a")
      case True
      with al dd show ?thesis by simp
    next
      case False
      with k have "k \<in> set (map fst ?deps')" by (simp only: keys_remove_key) simp
      with others' False show ?thesis by (auto simp: js_get_remove_key)
    qed
  qed
  let ?pairs = "record_pairs Alias DependencyDeclaration ?p deps"
  let ?out = "merge_final [] ?pairs"
  from z_record_accept[OF all] have
    dok: "fst (DependenciesSchema ?p (JObj deps)) = OK (JObj ?out)"
    by (simp add: DependenciesSchema_def)
  then have dfield: "fst (z_default (z_optional DependenciesSchema) (JObj [])
                       ([] @ [str ''dependencies'']) (js_get tbl (str ''dependencies'')))
                     = OK (JObj ?out)"
    unfolding tbl by (simp add: dependencies_field_JObj)
  have fields: "\<forall>(k, f)\<in>set ?shape. isValid (fst (f ([] @ [k]) (js_get tbl k)))"
    using ag ex pk dfield by simp
  let ?fo = "merge_final [] (object_pairs ?shape [] tbl)"
  from z_object_strict_accept[OF keys fields] have
    mok: "fst (ManifestSchema [] (JObj tbl)) = OK (JObj ?fo)"
    by (simp add: ManifestSchema_def)
  have dist: "distinct (map fst ?shape)" by simp
  have "js_get ?fo (str ''dependencies'')
          = result_value (fst (z_default (z_optional DependenciesSchema) (JObj [])
                       ([] @ [str ''dependencies'']) (js_get tbl (str ''dependencies''))))"
    by (rule object_output_get[OF dist]) simp_all
  with dfield have fo_deps: "js_get ?fo (str ''dependencies'') = JObj ?out" by simp
  have d_out: "distinct (map fst ?out)" by (rule distinct_merge_final) simp
  from DependenciesSchema_OK[OF dok] have shapes: "\<forall>(k, w)\<in>set ?out. declaration_shape w"
    by auto
  have look: "map_of ?out (trim a) = Some v'"
    if proto: "trim a \<noteq> str ''__proto__''"
      and uniq: "\<forall>b. js_in b deps \<longrightarrow> trim b = trim a \<longrightarrow> b = a"
  proof -
    have same: "\<forall>(kr, vr, al)\<in>set ?pairs. string_of (result_value kr) = trim a
               \<longrightarrow> result_value kr \<noteq> JStr (str ''__proto__'') \<and> result_value vr = v' \<and> al"
    proof (clarify)
      fix kr vr al assume mem: "(kr, vr, al) \<in> set ?pairs"
        and key: "string_of (result_value kr) = trim a"
      from mem obtain b where b: "b \<in> set (map fst deps)"
        and kr: "kr = fst (Alias (?p @ [b]) (JStr b))"
        and vr: "vr = fst (DependencyDeclaration (?p @ [b]) (js_get deps b))"
        and al: "al = True"
        by (auto simp: record_pairs_def)
      from all b obtain w where "fst (Alias (?p @ [b]) (JStr b)) = OK w" by (auto dest: isValid_OK)
      with Alias_OK[OF this] kr have krv: "result_value kr = JStr (trim b)" by simp
      with key have "trim b = trim a" by (simp add: string_of_def)
      with uniq b have "b = a" by (simp add: js_in_def)
      with vr dd krv proto al
      show "result_value kr \<noteq> JStr (str ''__proto__'') \<and> result_value vr = v' \<and> al"
        by simp
    qed
    have inkeys: "trim a \<in> set (map pair_key ?pairs)"
    proof -
      from a have ain: "a \<in> set (map fst deps)" by (simp add: js_in_def)
      from al obtain w where "fst (Alias (?p @ [a]) (JStr a)) = OK w" by (auto dest: isValid_OK)
      with Alias_OK[OF this] have "result_value (fst (Alias (?p @ [a]) (JStr a))) = JStr (trim a)"
        by simp
      then have "pair_key (fst (Alias (?p @ [a]) (JStr a)),
                           fst (DependencyDeclaration (?p @ [a]) (js_get deps a)), True) = trim a"
        by (simp add: pair_key_def string_of_def)
      moreover from ain have "(fst (Alias (?p @ [a]) (JStr a)),
                           fst (DependencyDeclaration (?p @ [a]) (js_get deps a)), True) \<in> set ?pairs"
        by (auto simp: record_pairs_def)
      ultimately show ?thesis by force
    qed
    from merge_final_get_same[OF same, of "[]"] inkeys have get: "js_get ?out (trim a) = v'"
      by simp
    from DependencyDeclaration_shape[OF dd] have "v' \<noteq> JUndef"
      by (auto simp: declaration_shape_def)
    with get show ?thesis
      by (auto simp: js_get_def split: option.splits)
  qed
  from mok fo_deps d_out look shapes show ?thesis by blast
qed

lemma parse_with_dependency:
  assumes toml: "parseToml contents = Inr (JObj tbl)"
      and tbl: "js_get tbl (str ''dependencies'') = JObj deps"
      and a: "js_in a deps"
      and al: "isValid (fst (Alias [str ''dependencies'', a] (JStr a)))"
      and dd: "fst (DependencyDeclaration [str ''dependencies'', a] (js_get deps a)) = OK v'"
      and rest: "parse (parseToml_returns (JObj (without_dependency a tbl))) errorMap' contents'
                   = Inr m'"
  shows "\<exists>m. parse parseToml errorMap contents = Inr m
           \<and> (trim a \<noteq> str ''__proto__''
                \<and> (\<forall>b. js_in b deps \<longrightarrow> trim b = trim a \<longrightarrow> b = a)
              \<longrightarrow> (\<exists>dep. parseDependency (trim a) v' = Inr dep
                         \<and> map_of (dependencies m) (trim a) = Some dep))"
proof -
  have pt: "parseToml_returns (JObj (without_dependency a tbl)) contents'
              = Inr (JObj (without_dependency a tbl))"
    by (simp add: parseToml_returns_def)
  from rest have "isValid (fst (ManifestSchema [] (JObj (without_dependency a tbl))))"
    by (cases "parseToml_returns (JObj (without_dependency a tbl))" errorMap' contents'
          rule: parse_cases) (auto simp: pt zod_parse_Inr)
  from manifest_with_dependency[OF tbl a al dd this] obtain fo out where
    mok: "fst (ManifestSchema [] (JObj tbl)) = OK (JObj fo)" and
    fo: "js_get fo (str ''dependencies'') = JObj out" and
    dist: "distinct (map fst out)" and
    shapes: "\<forall>(k, w)\<in>set out. declaration_shape w" and
    look: "trim a \<noteq> str ''__proto__''
             \<and> (\<forall>b. js_in b deps \<longrightarrow> trim b = trim a \<longrightarrow> b = a)
           \<longrightarrow> map_of out (trim a) = Some v'"
    by blast
  from mok have z: "zod_parse ManifestSchema (JObj tbl) = Inr (JObj fo)"
    by (simp add: zod_parse_Inr)
  from process_dependencies_Inr[OF shapes, of "[]"] obtain dm where
    pd: "process_dependencies out [] = Inr dm" by blast
  have dep: "\<exists>dep. parseDependency (trim a) v' = Inr dep \<and> map_of dm (trim a) = Some dep"
    if "trim a \<noteq> str ''__proto__'' \<and> (\<forall>b. js_in b deps \<longrightarrow> trim b = trim a \<longrightarrow> b = a)"
  proof -
    from look that have "map_of out (trim a) = Some v'" by blast
    from process_dependencies_map_of[OF dist pd this] show ?thesis .
  qed
  from toml z fo pd have
    "\<exists>m. parse parseToml errorMap contents = Inr m \<and> dependencies m = dm"
    by (simp add: parse_def Let_def js_prop_def Object_entries_def)
  with dep show ?thesis by auto
qed


lemma DependencyDeclaration_object_variant:
  assumes "isValid (fst (DependencyDeclaration p (JObj d)))"
  shows "(js_in (str ''gh'') d
          \<and> set (map fst d) \<subseteq> set [str ''branch'', str ''gh'', str ''path'', str ''rev'', str ''tag''])
       \<or> (js_in (str ''git'') d
          \<and> set (map fst d) \<subseteq> set [str ''branch'', str ''git'', str ''path'', str ''rev'', str ''tag''])
       \<or> (js_in (str ''path'') d \<and> set (map fst d) \<subseteq> set [str ''path''])
       \<or> (js_in (str ''type'') d
          \<and> set (map fst d) \<subseteq> set [str ''marketplace'', str ''plugin'', str ''type''])"
proof -
  from assms obtain v where "fst (DependencyDeclaration p (JObj d)) = OK v"
    by (auto dest: isValid_OK)
  from DependencyDeclaration_OK[OF this] show ?thesis
  proof (elim disjE)
    assume "fst (RegistryDependency p (JObj d)) = OK v"
    from RegistryDependency_OK[OF this] show ?thesis by simp
  next
    assume "fst (GithubDependency p (JObj d)) = OK v"
    from GithubDependency_OK[OF this] have
      "set (map fst d) \<subseteq> set [str ''branch'', str ''gh'', str ''path'', str ''rev'', str ''tag'']"
      and "\<exists>g. js_get d (str ''gh'') = JStr g"
      by blast+
    moreover from this(2) have "js_in (str ''gh'') d" by (auto intro: js_get_in)
    ultimately show ?thesis by blast
  next
    assume "fst (GitDependency p (JObj d)) = OK v"
    from GitDependency_OK[OF this] have
      "set (map fst d) \<subseteq> set [str ''branch'', str ''git'', str ''path'', str ''rev'', str ''tag'']"
      and "\<exists>u. js_get d (str ''git'') = JStr u"
      by blast+
    moreover from this(2) have "js_in (str ''git'') d" by (auto intro: js_get_in)
    ultimately show ?thesis by blast
  next
    assume "fst (LocalDependency p (JObj d)) = OK v"
    from LocalDependency_OK[OF this] have "set (map fst d) \<subseteq> set [str ''path'']"
      and "\<exists>u. js_get d (str ''path'') = JStr u"
      by blast+
    moreover from this(2) have "js_in (str ''path'') d" by (auto intro: js_get_in)
    ultimately show ?thesis by blast
  next
    assume "fst (ClaudePluginDependency p (JObj d)) = OK v"
    from ClaudePluginDependency_OK[OF this] have
      "set (map fst d) \<subseteq> set [str ''marketplace'', str ''plugin'', str ''type'']"
      and "js_get d (str ''type'') = JStr (str ''claude-plugin'')"
      by blast+
    moreover from this(2) have "js_in (str ''type'') d" by (auto intro: js_get_in)
    ultimately show ?thesis by blast
  qed
qed


section \<open>The claims\<close>

text \<open>
  C1 (the code does not do this). The claim: the \<open>url\<close> of a Git dependency is the
  declared URL normalized (an SSH shorthand rewritten to \<open>https://host/path\<close>, \<open>http://\<close>
  to \<open>https://\<close>, a trailing \<open>.git\<close> removed). The parser copies the declared string, as
  the schema trimmed it, into \<open>url\<close>: for \<open>git = "git@github.com:org/repo.git"\<close> the result
  holds that string, not \<open>https://github.com/org/repo\<close>.
\<close>

theorem git_url_not_normalized:
  "parse (parseToml_returns doc_ssh_git) zod_errorMap []
     = Inr \<lparr>package = None, agents = [],
            dependencies =
              [(str ''ssh-dep'',
                ValidatedGitDependency (JStr (str ''git@github.com:org/repo.git''))
                  (Some \<lparr>ref_type = tag, ref_value = JStr (str ''v1'')\<rparr>) None)],
            exports = None\<rparr>"
  by (simp add: doc_ssh_git_def eval_defs)




text \<open>
  C3, amended. For every dependency entry whose value is a string \<open>[@org/]name@version\<close>
  with \<open>org\<close> and \<open>name\<close> non-empty and in \<open>[A-Za-z0-9_-]\<close> and \<open>version\<close> non-empty and without
  a line terminator (it may contain \<open>@\<close>), under an alias that is not empty once trimmed
  and has no slash, backslash, dot or colon, in a document that parses without this
  entry: \<open>parse\<close> succeeds; and when the trimmed alias is not \<open>__proto__\<close> and no other key
  of the table is equal to it once trimmed, the result holds under the trimmed alias the
  Registry dependency with exactly these \<open>name\<close>, \<open>version\<close> and (when the prefix is there)
  \<open>org\<close>.
\<close>

theorem registry_shorthand_parsed:
  assumes "name \<noteq> []" and "\<forall>c\<in>set name. atom_ok id_class c"
      and "version \<noteq> []" and "\<forall>c\<in>set version. c \<notin> {10, 13, 8232, 8233}"
      and "\<forall>x. org = Some x \<longrightarrow> x \<noteq> [] \<and> (\<forall>c\<in>set x. atom_ok id_class c)"
      and "s = (case org of None \<Rightarrow> [] | Some x \<Rightarrow> str ''@'' @ x @ str ''/'')
               @ name @ str ''@'' @ version"
      and "parseToml contents = Inr (JObj tbl)"
      and "js_get tbl (str ''dependencies'') = JObj deps"
      and "js_in a deps" and "js_get deps a = JStr s"
      and "trim a \<noteq> []" and "\<not> js_includes (trim a) (str ''/'')"
      and "\<not> js_includes (trim a) [92]" and "\<not> js_includes (trim a) (str ''.'')"
      and "\<not> js_includes (trim a) (str '':'')"
      and "parse (parseToml_returns (JObj (without_dependency a tbl))) errorMap contents = Inr m'"
  shows "\<exists>m. parse parseToml errorMap contents = Inr m
           \<and> (trim a \<noteq> str ''__proto__''
                \<and> (\<forall>b. js_in b deps \<longrightarrow> trim b = trim a \<longrightarrow> b = a)
              \<longrightarrow> map_of (dependencies m) (trim a)
                    = Some (ValidatedRegistryDependency (JStr name) (map_option JStr org)
                              (JStr version)))"
proof -
  from assms(4) have dot: "\<forall>c\<in>set version. atom_ok Dot c" by auto
  have t: "rx_test RegistryPattern s"
  proof (cases org)
    case None
    with assms(6) have s: "s = name @ str ''@'' @ version" by simp
    from rx_test_RegistryPattern_name_version[OF assms(1,2,3) dot] s show ?thesis by simp
  next
    case (Some x)
    with assms(5) have x: "x \<noteq> []" "\<forall>c\<in>set x. atom_ok id_class c" by auto
    from Some assms(6) have s: "s = str ''@'' @ x @ str ''/'' @ name @ str ''@'' @ version"
      by simp
    from rx_test_RegistryPattern_org_name_version[OF x assms(1,2,3) dot] s show ?thesis by simp
  qed
  have d: "parseRegistryString s
             = Some (ValidatedRegistryDependency (JStr name) (map_option JStr org) (JStr version))"
  proof (cases org)
    case None
    with assms(6) have s: "s = name @ str ''@'' @ version" by simp
    from parseRegistryString_name_version[OF assms(1,2,3) dot] s None show ?thesis by simp
  next
    case (Some x)
    with assms(5) have x: "x \<noteq> []" "\<forall>c\<in>set x. atom_ok id_class c" by auto
    from Some assms(6) have s: "s = str ''@'' @ x @ str ''/'' @ name @ str ''@'' @ version"
      by simp
    from parseRegistryString_org_name_version[OF x assms(1,2,3) dot] s Some show ?thesis by simp
  qed
  have dd: "fst (DependencyDeclaration [str ''dependencies'', a] (js_get deps a)) = OK (JStr s)"
    unfolding assms(10) by (simp add: DependencyDeclaration_good_string[OF t])
  have pd: "parseDependency (trim a) (JStr s)
           = Inr (ValidatedRegistryDependency (JStr name) (map_option JStr org) (JStr version))"
    using d by (simp add: parseDependency_def)
  have al: "isValid (fst (Alias [str ''dependencies'', a] (JStr a)))"
    by (simp add: Alias_valid[OF assms(11,12,13,14,15)])
  from parse_with_dependency[where parseToml = parseToml and contents = contents
      and errorMap = errorMap, OF assms(7,8,9) al dd assms(16)] pd
  show ?thesis by auto
qed

theorem registry_shorthand_parsed_witness:
  "(\<exists>m. parse (parseToml_returns doc_registry) zod_errorMap [] = Inr m
        \<and> map_of (dependencies m) (str ''superpowers'')
            = Some (ValidatedRegistryDependency (JStr (str ''superpowers'')) None
                      (JStr (str ''1.0.0''))))
   \<and> (\<exists>m. parse (parseToml_returns doc_registry) zod_errorMap [] = Inr m
        \<and> map_of (dependencies m) (str ''feature-dev'')
            = Some (ValidatedRegistryDependency (JStr (str ''feature-dev''))
                      (Some (JStr (str ''claude-plugins''))) (JStr (str ''2.0.0''))))"
proof (intro conjI)
  let ?deps = "[(str ''superpowers'', JStr (str ''superpowers@1.0.0'')),
                (str ''feature-dev'', JStr (str ''@claude-plugins/feature-dev@2.0.0''))]"
  have toml: "parseToml_returns doc_registry [] = Inr (JObj (Object_entries doc_registry))"
    by (simp add: parseToml_returns_def doc_registry_def Object_entries_def)
  have deps: "js_get (Object_entries doc_registry) (str ''dependencies'') = JObj ?deps"
    by (simp add: doc_registry_def Object_entries_def js_get_def)
  have tr: "trim (str ''superpowers'') = str ''superpowers''"
           "trim (str ''feature-dev'') = str ''feature-dev''"
    by (simp_all add: trim_def isWhiteSpace_def)
  have r1: "parse (parseToml_returns
               (JObj (without_dependency (str ''superpowers'') (Object_entries doc_registry))))
             zod_errorMap []
          = Inr \<lparr>package = Some (JObj [(str ''name'', JStr (str ''my-skills'')),
                                        (str ''version'', JStr (str ''1.0.0''))]),
                 agents = [(str ''claude-code'', JBool True)],
                 dependencies =
                   [(str ''feature-dev'',
                     ValidatedRegistryDependency (JStr (str ''feature-dev''))
                       (Some (JStr (str ''claude-plugins''))) (JStr (str ''2.0.0'')))],
                 exports = None\<rparr>"
    by (simp add: doc_registry_def without_dependency_def remove_key_def eval_defs)
  have r2: "parse (parseToml_returns
               (JObj (without_dependency (str ''feature-dev'') (Object_entries doc_registry))))
             zod_errorMap []
          = Inr \<lparr>package = Some (JObj [(str ''name'', JStr (str ''my-skills'')),
                                        (str ''version'', JStr (str ''1.0.0''))]),
                 agents = [(str ''claude-code'', JBool True)],
                 dependencies =
                   [(str ''superpowers'',
                     ValidatedRegistryDependency (JStr (str ''superpowers'')) None
                       (JStr (str ''1.0.0'')))],
                 exports = None\<rparr>"
    by (simp add: doc_registry_def without_dependency_def remove_key_def eval_defs)
  have u1: "trim (str ''superpowers'') \<noteq> str ''__proto__''
            \<and> (\<forall>b. js_in b ?deps \<longrightarrow> trim b = trim (str ''superpowers'')
                   \<longrightarrow> b = str ''superpowers'')"
    by (auto simp: js_in_def trim_def isWhiteSpace_def)
  have u2: "trim (str ''feature-dev'') \<noteq> str ''__proto__''
            \<and> (\<forall>b. js_in b ?deps \<longrightarrow> trim b = trim (str ''feature-dev'')
                   \<longrightarrow> b = str ''feature-dev'')"
    by (auto simp: js_in_def trim_def isWhiteSpace_def)
  have "\<exists>m. parse (parseToml_returns doc_registry) zod_errorMap [] = Inr m
          \<and> (trim (str ''superpowers'') \<noteq> str ''__proto__''
               \<and> (\<forall>b. js_in b ?deps \<longrightarrow> trim b = trim (str ''superpowers'')
                      \<longrightarrow> b = str ''superpowers'')
             \<longrightarrow> map_of (dependencies m) (trim (str ''superpowers''))
                   = Some (ValidatedRegistryDependency (JStr (str ''superpowers''))
                             (map_option JStr None) (JStr (str ''1.0.0''))))"
    by (rule registry_shorthand_parsed[where name = "str ''superpowers''"
          and version = "str ''1.0.0''" and org = None and s = "str ''superpowers@1.0.0''"
          and a = "str ''superpowers''" and parseToml = "parseToml_returns doc_registry"
          and contents = "[]" and errorMap = zod_errorMap
          and tbl = "Object_entries doc_registry", OF _ _ _ _ _ _ toml deps _ _ _ _ _ _ _ r1])
       (simp_all add: id_class_def js_in_def js_get_def trim_def isWhiteSpace_def)
  with u1 show "\<exists>m. parse (parseToml_returns doc_registry) zod_errorMap [] = Inr m
        \<and> map_of (dependencies m) (str ''superpowers'')
            = Some (ValidatedRegistryDependency (JStr (str ''superpowers'')) None
                      (JStr (str ''1.0.0'')))"
    unfolding tr by auto
  have "\<exists>m. parse (parseToml_returns doc_registry) zod_errorMap [] = Inr m
          \<and> (trim (str ''feature-dev'') \<noteq> str ''__proto__''
               \<and> (\<forall>b. js_in b ?deps \<longrightarrow> trim b = trim (str ''feature-dev'')
                      \<longrightarrow> b = str ''feature-dev'')
             \<longrightarrow> map_of (dependencies m) (trim (str ''feature-dev''))
                   = Some (ValidatedRegistryDependency (JStr (str ''feature-dev''))
                             (map_option JStr (Some (str ''claude-plugins'')))
                             (JStr (str ''2.0.0''))))"
    by (rule registry_shorthand_parsed[where name = "str ''feature-dev''"
          and version = "str ''2.0.0''" and org = "Some (str ''claude-plugins'')"
          and s = "str ''@claude-plugins/feature-dev@2.0.0''"
          and a = "str ''feature-dev''" and parseToml = "parseToml_returns doc_registry"
          and contents = "[]" and errorMap = zod_errorMap
          and tbl = "Object_entries doc_registry", OF _ _ _ _ _ _ toml deps _ _ _ _ _ _ _ r2])
       (simp_all add: id_class_def js_in_def js_get_def trim_def isWhiteSpace_def)
  with u2 show "\<exists>m. parse (parseToml_returns doc_registry) zod_errorMap [] = Inr m
        \<and> map_of (dependencies m) (str ''feature-dev'')
            = Some (ValidatedRegistryDependency (JStr (str ''feature-dev''))
                      (Some (JStr (str ''claude-plugins''))) (JStr (str ''2.0.0'')))"
    unfolding tr by auto
qed

text \<open>
  The claim as stated holds for every entry whose value matches the grammar, with any
  non-empty remainder as the version. A version that ends with a line feed is rejected
  (the pattern ends with \<open>.+$\<close>, and the dot matches no line terminator); an entry under the
  key \<open>__proto__\<close> is dropped by the schema library, so that the document parses and holds
  no dependency; of two keys that are equal once trimmed the later entry replaces the
  earlier one; an entry under an alias with a dot is rejected; and so is an entry in a
  document with an unknown section.
\<close>

theorem registry_shorthand_counterexample:
  "parse (parseToml_returns doc_newline_version) zod_errorMap []
     = Inl \<lparr>type = invalid_manifest,
            message = str ''Invalid manifest: dependencies.pkg: Must be in format ''
                      @ quoted (str ''[@org/]name@version''),
            cause = Some (ZodErrorCause
                      [\<lparr>code = invalid_string, path = [str ''dependencies'', str ''pkg''],
                        custom_message = Some (str ''Must be in format ''
                                               @ quoted (str ''[@org/]name@version''))\<rparr>])\<rparr>
   \<and> parse (parseToml_returns doc_proto_alias) zod_errorMap []
     = Inr \<lparr>package = None, agents = [], dependencies = [], exports = None\<rparr>
   \<and> parse (parseToml_returns doc_colliding_aliases) zod_errorMap []
     = Inr \<lparr>package = None, agents = [],
            dependencies = [(str ''tools'',
                             ValidatedRegistryDependency (JStr (str ''second'')) None
                               (JStr (str ''2.0'')))],
            exports = None\<rparr>
   \<and> parse (parseToml_returns doc_bad_alias) zod_errorMap []
     = Inl \<lparr>type = invalid_manifest,
            message = str ''Invalid manifest: dependencies.my.tools: Alias cannot contain ''
                      @ quoted (str ''.''),
            cause = Some (ZodErrorCause
                      [\<lparr>code = custom, path = [str ''dependencies'', str ''my.tools''],
                        custom_message = Some (str ''Alias cannot contain ''
                                               @ quoted (str ''.''))\<rparr>])\<rparr>
   \<and> parse (parseToml_returns doc_registry_unknown_section) zod_errorMap []
     = Inl \<lparr>type = invalid_manifest,
            message = str ''Invalid manifest: : Unrecognized key(s) in object: ''
                      @ quoted (str ''scripts''),
            cause = Some (ZodErrorCause
                      [\<lparr>code = unrecognized_keys [str ''scripts''], path = [],
                        custom_message = None\<rparr>])\<rparr>"
  by (simp add: doc_newline_version_def doc_proto_alias_def doc_colliding_aliases_def
      doc_bad_alias_def doc_registry_unknown_section_def eval_defs)

text \<open>
  C4. Every object schema is closed: \<open>parse\<close> fails with an error of kind
  \<open>invalid_manifest\<close> on a document with a key outside the four section names at the top
  level; with a key outside the declared fields in \<open>package\<close>, in \<open>exports\<close> or in
  \<open>exports.auto_discover\<close>; or with a dependency object that is a GitHub object (it has the
  key \<open>gh\<close>) with a key outside \<open>branch\<close>, \<open>gh\<close>, \<open>path\<close>, \<open>rev\<close>, \<open>tag\<close>, a Git object (key
  \<open>git\<close>) with a key outside \<open>branch\<close>, \<open>git\<close>, \<open>path\<close>, \<open>rev\<close>, \<open>tag\<close>, a Claude plugin object
  (key \<open>type\<close>) with a key outside \<open>marketplace\<close>, \<open>plugin\<close>, \<open>type\<close>, a Local object (key
  \<open>path\<close>, neither \<open>gh\<close> nor \<open>git\<close>) with a key other than \<open>path\<close>, or an object with none of
  the keys \<open>gh\<close>, \<open>git\<close>, \<open>type\<close>, \<open>path\<close>.
\<close>

theorem unknown_key_rejected:
  assumes "parseToml contents = Inr (JObj tbl)"
      and "(\<exists>k. js_in k tbl
               \<and> k \<notin> set [str ''agents'', str ''dependencies'', str ''exports'', str ''package''])
         \<or> (\<exists>pkg k. js_get tbl (str ''package'') = JObj pkg \<and> js_in k pkg
               \<and> k \<notin> set [str ''description'', str ''license'', str ''name'', str ''org'',
                            str ''version''])
         \<or> (\<exists>ex k. js_get tbl (str ''exports'') = JObj ex \<and> js_in k ex
               \<and> k \<notin> set [str ''auto_discover''])
         \<or> (\<exists>ex ad k. js_get tbl (str ''exports'') = JObj ex
               \<and> js_get ex (str ''auto_discover'') = JObj ad \<and> js_in k ad
               \<and> k \<notin> set [str ''skills''])
         \<or> (\<exists>deps a d. js_get tbl (str ''dependencies'') = JObj deps \<and> js_in a deps
               \<and> js_get deps a = JObj d
               \<and> ((js_in (str ''gh'') d
                    \<and> (\<exists>k. js_in k d
                          \<and> k \<notin> set [str ''branch'', str ''gh'', str ''path'', str ''rev'',
                                       str ''tag'']))
                  \<or> (js_in (str ''git'') d
                    \<and> (\<exists>k. js_in k d
                          \<and> k \<notin> set [str ''branch'', str ''git'', str ''path'', str ''rev'',
                                       str ''tag'']))
                  \<or> (js_in (str ''type'') d
                    \<and> (\<exists>k. js_in k d
                          \<and> k \<notin> set [str ''marketplace'', str ''plugin'', str ''type'']))
                  \<or> (js_in (str ''path'') d \<and> \<not> js_in (str ''gh'') d \<and> \<not> js_in (str ''git'') d
                    \<and> (\<exists>k. js_in k d \<and> k \<notin> set [str ''path'']))
                  \<or> (\<not> js_in (str ''gh'') d \<and> \<not> js_in (str ''git'') d
                    \<and> \<not> js_in (str ''type'') d \<and> \<not> js_in (str ''path'') d)))"
  shows "\<exists>e. parse parseToml errorMap contents = Inl e \<and> type e = invalid_manifest"
proof -
  let ?out = "\<lambda>d. (js_in (str ''gh'') d
                    \<and> (\<exists>k. js_in k d
                          \<and> k \<notin> set [str ''branch'', str ''gh'', str ''path'', str ''rev'',
                                       str ''tag'']))
                  \<or> (js_in (str ''git'') d
                    \<and> (\<exists>k. js_in k d
                          \<and> k \<notin> set [str ''branch'', str ''git'', str ''path'', str ''rev'',
                                       str ''tag'']))
                  \<or> (js_in (str ''type'') d
                    \<and> (\<exists>k. js_in k d
                          \<and> k \<notin> set [str ''marketplace'', str ''plugin'', str ''type'']))
                  \<or> (js_in (str ''path'') d \<and> \<not> js_in (str ''gh'') d \<and> \<not> js_in (str ''git'') d
                    \<and> (\<exists>k. js_in k d \<and> k \<notin> set [str ''path'']))
                  \<or> (\<not> js_in (str ''gh'') d \<and> \<not> js_in (str ''git'') d
                    \<and> \<not> js_in (str ''type'') d \<and> \<not> js_in (str ''path'') d)"
  from assms(2) consider
      (top) k where "js_in k tbl"
        "k \<notin> set [str ''agents'', str ''dependencies'', str ''exports'', str ''package'']"
    | (pkg) pkg k where "js_get tbl (str ''package'') = JObj pkg" "js_in k pkg"
        "k \<notin> set [str ''description'', str ''license'', str ''name'', str ''org'', str ''version'']"
    | (ex) ex k where "js_get tbl (str ''exports'') = JObj ex" "js_in k ex"
        "k \<notin> set [str ''auto_discover'']"
    | (ad) ex ad k where "js_get tbl (str ''exports'') = JObj ex"
        "js_get ex (str ''auto_discover'') = JObj ad" "js_in k ad" "k \<notin> set [str ''skills'']"
    | (dep) deps a d where "js_get tbl (str ''dependencies'') = JObj deps" "js_in a deps"
        "js_get deps a = JObj d" "?out d"
    by blast
  then have "\<not> isValid (fst (ManifestSchema [] (JObj tbl)))"
  proof cases
    case top
    then show ?thesis
      unfolding ManifestSchema_def by (intro object_extra_key_not_valid) simp_all
  next
    case pkg
    note p = pkg(1)
    from pkg have "\<not> isValid (fst (PackageSchema ([] @ [str ''package'']) (JObj pkg)))"
      unfolding PackageSchema_def by (intro object_extra_key_not_valid) simp_all
    with p have "\<not> isValid (fst (z_optional PackageSchema ([] @ [str ''package''])
                                  (js_get tbl (str ''package''))))"
      by (simp add: z_optional_JObj)
    then show ?thesis
      unfolding ManifestSchema_def by (intro object_field_not_valid) simp_all
  next
    case ex
    note e = ex(1)
    from ex have "\<not> isValid (fst (ExportsSchema ([] @ [str ''exports'']) (JObj ex)))"
      unfolding ExportsSchema_def by (intro object_extra_key_not_valid) simp_all
    with e have "\<not> isValid (fst (z_optional ExportsSchema ([] @ [str ''exports''])
                                  (js_get tbl (str ''exports''))))"
      by (simp add: z_optional_JObj)
    then show ?thesis
      unfolding ManifestSchema_def by (intro object_field_not_valid) simp_all
  next
    case ad
    note e = ad(1) and a = ad(2)
    let ?inner = "z_object_strict
                    [(str ''skills'', z_optional (z_union [NonEmptyString, z_literal (JBool False)]))]"
    from ad(3,4)
    have "\<not> isValid (fst (?inner (([] @ [str ''exports'']) @ [str ''auto_discover'']) (JObj ad)))"
      by (intro object_extra_key_not_valid) simp_all
    with a have "\<not> isValid (fst (z_optional ?inner (([] @ [str ''exports'']) @ [str ''auto_discover''])
                                  (js_get ex (str ''auto_discover''))))"
      by (simp add: z_optional_JObj)
    then have "\<not> isValid (fst (ExportsSchema ([] @ [str ''exports'']) (JObj ex)))"
      unfolding ExportsSchema_def by (intro object_field_not_valid) simp_all
    with e have "\<not> isValid (fst (z_optional ExportsSchema ([] @ [str ''exports''])
                                  (js_get tbl (str ''exports''))))"
      by (simp add: z_optional_JObj)
    then show ?thesis
      unfolding ManifestSchema_def by (intro object_field_not_valid) simp_all
  next
    case dep
    note dp = dep(1) and ia = dep(2) and d = dep(3) and out = dep(4)
    define K where "K = set (map fst d)"
    define G where "G = set [str ''branch'', str ''gh'', str ''path'', str ''rev'', str ''tag'']"
    define Gi where "Gi = set [str ''branch'', str ''git'', str ''path'', str ''rev'', str ''tag'']"
    define L where "L = set [str ''path'']"
    define C where "C = set [str ''marketplace'', str ''plugin'', str ''type'']"
    have notin: "str ''git'' \<notin> G" "str ''type'' \<notin> G" "str ''gh'' \<notin> Gi" "str ''type'' \<notin> Gi"
      "str ''gh'' \<notin> L" "str ''git'' \<notin> L" "str ''type'' \<notin> L"
      "str ''gh'' \<notin> C" "str ''git'' \<notin> C" "str ''path'' \<notin> C"
      by (simp_all add: G_def Gi_def L_def C_def)
    have mem: "js_in k d = (k \<in> K)" for k by (simp add: js_in_def K_def)
    have "\<not> isValid (fst (DependencyDeclaration [str ''dependencies'', a] (JObj d)))"
    proof
      assume "isValid (fst (DependencyDeclaration [str ''dependencies'', a] (JObj d)))"
      from DependencyDeclaration_object_variant[OF this] have
        "(str ''gh'' \<in> K \<and> K \<subseteq> G) \<or> (str ''git'' \<in> K \<and> K \<subseteq> Gi)
         \<or> (str ''path'' \<in> K \<and> K \<subseteq> L) \<or> (str ''type'' \<in> K \<and> K \<subseteq> C)"
        unfolding mem K_def[symmetric] G_def[symmetric] Gi_def[symmetric] L_def[symmetric]
          C_def[symmetric] .
      moreover from out have
        "(str ''gh'' \<in> K \<and> (\<exists>k. k \<in> K \<and> k \<notin> G))
         \<or> (str ''git'' \<in> K \<and> (\<exists>k. k \<in> K \<and> k \<notin> Gi))
         \<or> (str ''type'' \<in> K \<and> (\<exists>k. k \<in> K \<and> k \<notin> C))
         \<or> (str ''path'' \<in> K \<and> str ''gh'' \<notin> K \<and> str ''git'' \<notin> K
            \<and> (\<exists>k. k \<in> K \<and> k \<notin> L))
         \<or> (str ''gh'' \<notin> K \<and> str ''git'' \<notin> K \<and> str ''type'' \<notin> K \<and> str ''path'' \<notin> K)"
        unfolding mem G_def[symmetric] Gi_def[symmetric] L_def[symmetric] C_def[symmetric] .
      ultimately show False using notin by blast
    qed
    with d have "\<not> isValid (fst (DependencyDeclaration [str ''dependencies'', a] (js_get deps a)))"
      by simp
    from manifest_declaration_not_valid[OF dp ia this] show ?thesis .
  qed
  from parse_invalid_manifest[where parseToml = parseToml and contents = contents
      and errorMap = errorMap, OF assms(1) this]
  show ?thesis by blast
qed

theorem unknown_key_rejected_witness:
  "(\<exists>e. parse (parseToml_returns doc_unknown_section) zod_errorMap [] = Inl e
        \<and> type e = invalid_manifest)
   \<and> (\<exists>e. parse (parseToml_returns doc_package_extra) zod_errorMap [] = Inl e
        \<and> type e = invalid_manifest)
   \<and> (\<exists>e. parse (parseToml_returns doc_exports_extra) zod_errorMap [] = Inl e
        \<and> type e = invalid_manifest)
   \<and> (\<exists>e. parse (parseToml_returns doc_auto_discover_extra) zod_errorMap [] = Inl e
        \<and> type e = invalid_manifest)
   \<and> (\<exists>e. parse (parseToml_returns doc_dependency_extra) zod_errorMap [] = Inl e
        \<and> type e = invalid_manifest)
   \<and> (\<exists>e. parse (parseToml_returns doc_git_extra) zod_errorMap [] = Inl e
        \<and> type e = invalid_manifest)
   \<and> (\<exists>e. parse (parseToml_returns doc_plugin_extra) zod_errorMap [] = Inl e
        \<and> type e = invalid_manifest)
   \<and> (\<exists>e. parse (parseToml_returns doc_local_extra) zod_errorMap [] = Inl e
        \<and> type e = invalid_manifest)
   \<and> (\<exists>e. parse (parseToml_returns doc_no_variant_key) zod_errorMap [] = Inl e
        \<and> type e = invalid_manifest)"
proof (intro conjI)
  show "\<exists>e. parse (parseToml_returns doc_unknown_section) zod_errorMap [] = Inl e
        \<and> type e = invalid_manifest"
    by (rule unknown_key_rejected[where tbl = "Object_entries doc_unknown_section"])
       (auto simp: parseToml_returns_def doc_unknown_section_def Object_entries_def js_in_def js_get_def)
  show "\<exists>e. parse (parseToml_returns doc_package_extra) zod_errorMap [] = Inl e
        \<and> type e = invalid_manifest"
    by (rule unknown_key_rejected[where tbl = "Object_entries doc_package_extra"])
       (auto simp: parseToml_returns_def doc_package_extra_def Object_entries_def js_in_def js_get_def)
  show "\<exists>e. parse (parseToml_returns doc_exports_extra) zod_errorMap [] = Inl e
        \<and> type e = invalid_manifest"
    by (rule unknown_key_rejected[where tbl = "Object_entries doc_exports_extra"])
       (auto simp: parseToml_returns_def doc_exports_extra_def Object_entries_def js_in_def js_get_def)
  show "\<exists>e. parse (parseToml_returns doc_auto_discover_extra) zod_errorMap [] = Inl e
        \<and> type e = invalid_manifest"
    by (rule unknown_key_rejected[where tbl = "Object_entries doc_auto_discover_extra"])
       (auto simp: parseToml_returns_def doc_auto_discover_extra_def Object_entries_def js_in_def js_get_def)
  show "\<exists>e. parse (parseToml_returns doc_dependency_extra) zod_errorMap [] = Inl e
        \<and> type e = invalid_manifest"
    by (rule unknown_key_rejected[where tbl = "Object_entries doc_dependency_extra"])
       (auto simp: parseToml_returns_def doc_dependency_extra_def Object_entries_def js_in_def js_get_def)
  show "\<exists>e. parse (parseToml_returns doc_git_extra) zod_errorMap [] = Inl e
        \<and> type e = invalid_manifest"
    by (rule unknown_key_rejected[where tbl = "Object_entries doc_git_extra"])
       (auto simp: parseToml_returns_def doc_git_extra_def Object_entries_def js_in_def js_get_def)
  show "\<exists>e. parse (parseToml_returns doc_plugin_extra) zod_errorMap [] = Inl e
        \<and> type e = invalid_manifest"
    by (rule unknown_key_rejected[where tbl = "Object_entries doc_plugin_extra"])
       (auto simp: parseToml_returns_def doc_plugin_extra_def Object_entries_def js_in_def js_get_def)
  show "\<exists>e. parse (parseToml_returns doc_local_extra) zod_errorMap [] = Inl e
        \<and> type e = invalid_manifest"
    by (rule unknown_key_rejected[where tbl = "Object_entries doc_local_extra"])
       (auto simp: parseToml_returns_def doc_local_extra_def Object_entries_def js_in_def js_get_def)
  show "\<exists>e. parse (parseToml_returns doc_no_variant_key) zod_errorMap [] = Inl e
        \<and> type e = invalid_manifest"
    by (rule unknown_key_rejected[where tbl = "Object_entries doc_no_variant_key"])
       (auto simp: parseToml_returns_def doc_no_variant_key_def Object_entries_def js_in_def js_get_def)
qed



text \<open>
  C6, amended. For every document whose dependencies table has a string entry that does
  not match the registry pattern, \<open>parse\<close> fails with an error of kind \<open>invalid_manifest\<close>
  (the schema rejects the string before \<open>parseDependency\<close> sees it), and the message names
  the entry by its path \<open>dependencies.<alias>\<close>.
\<close>

theorem bad_registry_string_invalid_manifest:
  assumes "parseToml contents = Inr (JObj tbl)"
      and "js_get tbl (str ''dependencies'') = JObj deps"
      and "js_in a deps" and "js_get deps a = JStr s"
      and "\<not> rx_test RegistryPattern s"
  shows "\<exists>e. parse parseToml errorMap contents = Inl e \<and> type e = invalid_manifest
           \<and> sublist (str ''dependencies.'' @ a @ str '': Must be in format ''
                       @ quoted (str ''[@org/]name@version''))
                      (message e)"
proof -
  let ?i = "\<lparr>code = invalid_string, path = [str ''dependencies'', a],
             custom_message = Some (str ''Must be in format ''
                                    @ quoted (str ''[@org/]name@version''))\<rparr>"
  have dd: "DependencyDeclaration [str ''dependencies'', a] (js_get deps a)
              = (DIRTY (JStr s), [?i])"
    using assms(4) DependencyDeclaration_bad_string[OF assms(5)] by simp
  then have nv: "\<not> isValid (fst (DependencyDeclaration [str ''dependencies'', a]
                                   (js_get deps a)))"
    by simp
  from manifest_declaration_issues[OF assms(2,3)] dd have
    i: "?i \<in> set (snd (ManifestSchema [] (JObj tbl)))" by simp
  from manifest_declaration_not_valid[OF assms(2,3) nv] have
    "\<not> isValid (fst (ManifestSchema [] (JObj tbl)))" .
  from parse_invalid_manifest[where parseToml = parseToml and contents = contents
      and errorMap = errorMap, OF assms(1) this] obtain e where
    e: "parse parseToml errorMap contents = Inl e" "type e = invalid_manifest"
       "\<forall>i\<in>set (snd (ManifestSchema [] (JObj tbl))).
          sublist (join (str ''.'') (path i) @ str '': '' @ issue_message errorMap i) (message e)"
    by blast
  from e(3) i have
    "sublist (join (str ''.'') (path ?i) @ str '': '' @ issue_message errorMap ?i) (message e)"
    by blast
  then have "sublist (str ''dependencies.'' @ a @ str '': Must be in format ''
                       @ quoted (str ''[@org/]name@version'')) (message e)"
    by (simp add: issue_message_def)
  with e(1,2) show ?thesis by blast
qed

theorem bad_registry_string_invalid_manifest_witness:
  "parseToml_returns doc_bad_registry [] = Inr (JObj (Object_entries doc_bad_registry))
   \<and> js_get (Object_entries doc_bad_registry) (str ''dependencies'')
       = JObj [(str ''bad'', JStr (str ''no-version''))]
   \<and> js_in (str ''bad'') [(str ''bad'', JStr (str ''no-version''))]
   \<and> js_get [(str ''bad'', JStr (str ''no-version''))] (str ''bad'') = JStr (str ''no-version'')
   \<and> \<not> rx_test RegistryPattern (str ''no-version'')
   \<and> (\<exists>e. parse (parseToml_returns doc_bad_registry) zod_errorMap [] = Inl e
          \<and> type e = invalid_manifest
          \<and> sublist (str ''dependencies.'' @ str ''bad'' @ str '': Must be in format ''
                      @ quoted (str ''[@org/]name@version''))
                     (message e))"
proof -
  have h1: "parseToml_returns doc_bad_registry [] = Inr (JObj (Object_entries doc_bad_registry))"
    by (simp add: parseToml_returns_def doc_bad_registry_def Object_entries_def)
  have h2: "js_get (Object_entries doc_bad_registry) (str ''dependencies'')
              = JObj [(str ''bad'', JStr (str ''no-version''))]"
    by (simp add: doc_bad_registry_def Object_entries_def js_get_def)
  have h3: "js_in (str ''bad'') [(str ''bad'', JStr (str ''no-version''))]"
    by (simp add: js_in_def)
  have h4: "js_get [(str ''bad'', JStr (str ''no-version''))] (str ''bad'')
              = JStr (str ''no-version'')"
    by (simp add: js_get_def)
  have h5: "\<not> rx_test RegistryPattern (str ''no-version'')"
    by (simp add: rx_test_def rx_exec_def RegistryPattern_def id_class_def)
  from bad_registry_string_invalid_manifest[where parseToml = "parseToml_returns doc_bad_registry"
      and contents = "[]" and errorMap = zod_errorMap and a = "str ''bad''", OF h1 h2 h3 h4 h5]
  show ?thesis using h1 h2 h3 h4 h5 by blast
qed

text \<open>
  The claim as stated asks for the kind \<open>invalid_dependency\<close>; for the entry
  \<open>bad = "no-version"\<close> the kind is \<open>invalid_manifest\<close>.
\<close>

theorem bad_registry_string_counterexample:
  "\<not> rx_test RegistryPattern (str ''no-version'')
   \<and> parse (parseToml_returns doc_bad_registry) zod_errorMap []
       = Inl \<lparr>type = invalid_manifest,
              message = str ''Invalid manifest: dependencies.bad: Must be in format ''
                        @ quoted (str ''[@org/]name@version''),
              cause = Some (ZodErrorCause
                        [\<lparr>code = invalid_string, path = [str ''dependencies'', str ''bad''],
                          custom_message = Some (str ''Must be in format ''
                                                 @ quoted (str ''[@org/]name@version''))\<rparr>])\<rparr>
   \<and> invalid_manifest \<noteq> invalid_dependency"
  by (simp add: doc_bad_registry_def eval_defs)

text \<open>
  C7 (the code does not do this). The claim: a document without an \<open>agents\<close> table fails
  with \<open>invalid_manifest\<close>. The schema gives a missing \<open>agents\<close> table the default \<open>{}\<close>,
  and the document parses, with no agents.
\<close>

theorem missing_agents_accepted:
  "parse (parseToml_returns doc_no_agents) zod_errorMap []
     = Inr \<lparr>package = Some (JObj [(str ''name'', JStr (str ''test'')),
                                   (str ''version'', JStr (str ''1.0.0''))]),
            agents = [], dependencies = [], exports = None\<rparr>"
  by (simp add: doc_no_agents_def eval_defs)

text \<open>
  C8. For every dependency object with the key \<open>gh\<close> (or \<open>git\<close>) that the schema lets
  through, \<open>parseDependency\<close> returns the GitHub (or Git) variant whose \<open>ref\<close> is the first of
  \<open>tag\<close>, \<open>branch\<close>, \<open>rev\<close> that is present, with its value, and is absent when none is;
  the \<open>path\<close>, when present, is carried through as it is. Each of these fields of the
  validated object is absent or the trimmed, non-empty string of the document.
\<close>

theorem git_ref_priority:
  assumes "fst (DependencyDeclaration p raw) = OK decl"
      and "js_has (str ''gh'') decl \<or> js_has (str ''git'') decl"
  shows "parseDependency a decl
           = Inr ((if js_has (str ''gh'') decl
                   then ValidatedGithubDependency (js_prop decl (str ''gh''))
                   else ValidatedGitDependency (js_prop decl (str ''git'')))
                  (if js_prop decl (str ''tag'') \<noteq> JUndef
                   then Some \<lparr>ref_type = tag, ref_value = js_prop decl (str ''tag'')\<rparr>
                   else if js_prop decl (str ''branch'') \<noteq> JUndef
                   then Some \<lparr>ref_type = branch, ref_value = js_prop decl (str ''branch'')\<rparr>
                   else if js_prop decl (str ''rev'') \<noteq> JUndef
                   then Some \<lparr>ref_type = rev, ref_value = js_prop decl (str ''rev'')\<rparr>
                   else None)
                  (if js_prop decl (str ''path'') \<noteq> JUndef
                   then Some (js_prop decl (str ''path'')) else None))
       \<and> (\<forall>f\<in>set [str ''tag'', str ''branch'', str ''rev'', str ''path''].
             (js_prop raw f = JUndef \<and> js_prop decl f = JUndef)
             \<or> (\<exists>s. js_prop raw f = JStr s \<and> trim s \<noteq> [] \<and> js_prop decl f = JStr (trim s)))"
proof -
  have main: ?thesis
    if d: "raw = JObj kvs" "decl = JObj fo"
      and fields: "\<forall>f\<in>set [str ''branch'', str ''path'', str ''rev'', str ''tag''].
           (js_get kvs f = JUndef \<and> js_get fo f = JUndef)
           \<or> (\<exists>s. js_get kvs f = JStr s \<and> trim s \<noteq> [] \<and> js_get fo f = JStr (trim s))"
    for kvs fo
  proof -
    from assms(2) d have key: "js_in (str ''gh'') fo \<or> js_in (str ''git'') fo"
      by (simp add: js_has_def)
    from git_fields_parseDependency[OF fields key, of a] fields d show ?thesis
      by (simp add: js_has_def js_prop_def)
  qed
  from DependencyDeclaration_OK[OF assms(1)] show ?thesis
  proof (elim disjE)
    assume "fst (RegistryDependency p raw) = OK decl"
    from RegistryDependency_OK[OF this] obtain s where "decl = JStr s" by blast
    with assms(2) show ?thesis by (simp add: js_has_def)
  next
    assume "fst (GithubDependency p raw) = OK decl"
    from GithubDependency_OK[OF this] obtain kvs fo where "raw = JObj kvs" "decl = JObj fo"
      "\<forall>f\<in>set [str ''branch'', str ''path'', str ''rev'', str ''tag''].
           (js_get kvs f = JUndef \<and> js_get fo f = JUndef)
           \<or> (\<exists>s. js_get kvs f = JStr s \<and> trim s \<noteq> [] \<and> js_get fo f = JStr (trim s))"
      by blast
    then show ?thesis by (rule main)
  next
    assume "fst (GitDependency p raw) = OK decl"
    from GitDependency_OK[OF this] obtain kvs fo where "raw = JObj kvs" "decl = JObj fo"
      "\<forall>f\<in>set [str ''branch'', str ''path'', str ''rev'', str ''tag''].
           (js_get kvs f = JUndef \<and> js_get fo f = JUndef)
           \<or> (\<exists>s. js_get kvs f = JStr s \<and> trim s \<noteq> [] \<and> js_get fo f = JStr (trim s))"
      by blast
    then show ?thesis by (rule main)
  next
    assume "fst (LocalDependency p raw) = OK decl"
    from LocalDependency_OK[OF this] obtain fo where "decl = JObj fo"
      "\<forall>k. js_in k fo \<longrightarrow> k \<in> set [str ''path'']" by blast
    with assms(2) show ?thesis by (auto simp: js_has_def)
  next
    assume "fst (ClaudePluginDependency p raw) = OK decl"
    from ClaudePluginDependency_OK[OF this] obtain fo where "decl = JObj fo"
      "\<forall>k. js_in k fo \<longrightarrow> k \<in> set [str ''marketplace'', str ''plugin'', str ''type'']" by blast
    with assms(2) show ?thesis by (auto simp: js_has_def)
  qed
qed

theorem git_ref_priority_witness:
  "fst (DependencyDeclaration [str ''dependencies'', str ''sensei'']
          (JObj [(str ''gh'', JStr (str ''sensei-marketplace/sensei'')),
                 (str ''tag'', JStr (str ''v2.0.0''))]))
     = OK (JObj [(str ''gh'', JStr (str ''sensei-marketplace/sensei'')),
                 (str ''tag'', JStr (str ''v2.0.0''))])
   \<and> js_has (str ''gh'') (JObj [(str ''gh'', JStr (str ''sensei-marketplace/sensei'')),
                                (str ''tag'', JStr (str ''v2.0.0''))])
   \<and> parseDependency (str ''sensei'')
        (JObj [(str ''gh'', JStr (str ''sensei-marketplace/sensei'')),
               (str ''tag'', JStr (str ''v2.0.0''))])
       = Inr (ValidatedGithubDependency (JStr (str ''sensei-marketplace/sensei''))
                (Some \<lparr>ref_type = tag, ref_value = JStr (str ''v2.0.0'')\<rparr>) None)
   \<and> parse (parseToml_returns doc_github) zod_errorMap []
       = Inr \<lparr>package = None, agents = [],
              dependencies =
                [(str ''sensei'',
                  ValidatedGithubDependency (JStr (str ''sensei-marketplace/sensei''))
                    (Some \<lparr>ref_type = tag, ref_value = JStr (str ''v2.0.0'')\<rparr>) None)],
              exports = None\<rparr>"
proof -
  let ?d = "JObj [(str ''gh'', JStr (str ''sensei-marketplace/sensei'')),
                  (str ''tag'', JStr (str ''v2.0.0''))]"
  have h1: "fst (DependencyDeclaration [str ''dependencies'', str ''sensei''] ?d) = OK ?d"
    by (simp add: eval_defs)
  have h2: "js_has (str ''gh'') ?d \<or> js_has (str ''git'') ?d"
    by (simp add: js_has_def js_in_def)
  have r: "parseDependency (str ''sensei'') ?d
       = Inr (ValidatedGithubDependency (JStr (str ''sensei-marketplace/sensei''))
                (Some \<lparr>ref_type = tag, ref_value = JStr (str ''v2.0.0'')\<rparr>) None)"
    using git_ref_priority[OF h1 h2, of "str ''sensei''"]
    by (simp add: js_has_def js_in_def js_prop_def js_get_def)
  have e: "parse (parseToml_returns doc_github) zod_errorMap []
       = Inr \<lparr>package = None, agents = [],
              dependencies =
                [(str ''sensei'',
                  ValidatedGithubDependency (JStr (str ''sensei-marketplace/sensei''))
                    (Some \<lparr>ref_type = tag, ref_value = JStr (str ''v2.0.0'')\<rparr>) None)],
              exports = None\<rparr>"
    by (simp add: doc_github_def eval_defs)
  from h1 r e show ?thesis by (simp add: js_has_def js_in_def)
qed

text \<open>
  C9. For every input string, \<open>parseOrThrow\<close> returns exactly the value that \<open>parse\<close>
  returns when \<open>parse\<close> succeeds, and throws an exception whose message is the \<open>message\<close>
  field of the error of \<open>parse\<close> when \<open>parse\<close> fails; its outcome is a function of the
  result of \<open>parse\<close> alone.
\<close>

theorem parseOrThrow_thin_wrapper:
  "(\<forall>v. parse parseToml errorMap contents = Inr v
        \<longrightarrow> parseOrThrow parseToml errorMap contents = Inr v)
   \<and> (\<forall>e. parse parseToml errorMap contents = Inl e
        \<longrightarrow> parseOrThrow parseToml errorMap contents = Inl (message e))"
  by (simp add: parseOrThrow_def)

theorem parseOrThrow_thin_wrapper_witness:
  "parse (parseToml_returns doc_minimal) zod_errorMap []
     = Inr \<lparr>package = Some (JObj [(str ''name'', JStr (str ''test'')),
                                   (str ''version'', JStr (str ''1.0.0''))]),
            agents = [(str ''claude-code'', JBool True)], dependencies = [], exports = None\<rparr>
   \<and> parseOrThrow (parseToml_returns doc_minimal) zod_errorMap []
     = Inr \<lparr>package = Some (JObj [(str ''name'', JStr (str ''test'')),
                                   (str ''version'', JStr (str ''1.0.0''))]),
            agents = [(str ''claude-code'', JBool True)], dependencies = [], exports = None\<rparr>
   \<and> parse (parseToml_returns doc_bad_registry) zod_errorMap []
     = Inl \<lparr>type = invalid_manifest,
            message = str ''Invalid manifest: dependencies.bad: Must be in format ''
                      @ quoted (str ''[@org/]name@version''),
            cause = Some (ZodErrorCause
                      [\<lparr>code = invalid_string, path = [str ''dependencies'', str ''bad''],
                        custom_message = Some (str ''Must be in format ''
                                               @ quoted (str ''[@org/]name@version''))\<rparr>])\<rparr>
   \<and> parseOrThrow (parseToml_returns doc_bad_registry) zod_errorMap []
     = Inl (str ''Invalid manifest: dependencies.bad: Must be in format ''
            @ quoted (str ''[@org/]name@version''))"
  using parseOrThrow_thin_wrapper[of "parseToml_returns doc_minimal" zod_errorMap "[]"]
    parseOrThrow_thin_wrapper[of "parseToml_returns doc_bad_registry" zod_errorMap "[]"]
  by (simp add: doc_minimal_def doc_bad_registry_def eval_defs)

text \<open>
  C10. For every input string, \<open>parse\<close> never returns an error of kind
  \<open>invalid_dependency\<close>: every dependency value that the schema lets through takes one of
  the success branches of \<open>parseDependency\<close>.
\<close>

theorem parse_never_invalid_dependency:
  "parse parseToml errorMap contents = Inl e \<Longrightarrow> type e \<noteq> invalid_dependency"
proof (cases parseToml errorMap contents rule: parse_cases)
  case (dependency raw manifest e')
  from process_dependencies_Inr[OF manifest_dependencies_shape[OF dependency(2)], of "[]"]
    dependency(3) show ?thesis by simp
qed auto

theorem parse_never_invalid_dependency_witness:
  "parse (parseToml_returns doc_bad_registry) zod_errorMap []
     = Inl \<lparr>type = invalid_manifest,
            message = str ''Invalid manifest: dependencies.bad: Must be in format ''
                      @ quoted (str ''[@org/]name@version''),
            cause = Some (ZodErrorCause
                      [\<lparr>code = invalid_string, path = [str ''dependencies'', str ''bad''],
                        custom_message = Some (str ''Must be in format ''
                                               @ quoted (str ''[@org/]name@version''))\<rparr>])\<rparr>
   \<and> type \<lparr>type = invalid_manifest,
            message = str ''Invalid manifest: dependencies.bad: Must be in format ''
                      @ quoted (str ''[@org/]name@version''),
            cause = Some (ZodErrorCause
                      [\<lparr>code = invalid_string, path = [str ''dependencies'', str ''bad''],
                        custom_message = Some (str ''Must be in format ''
                                               @ quoted (str ''[@org/]name@version''))\<rparr>])\<rparr>
       \<noteq> invalid_dependency"
proof -
  have r: "parse (parseToml_returns doc_bad_registry) zod_errorMap []
     = Inl \<lparr>type = invalid_manifest,
            message = str ''Invalid manifest: dependencies.bad: Must be in format ''
                      @ quoted (str ''[@org/]name@version''),
            cause = Some (ZodErrorCause
                      [\<lparr>code = invalid_string, path = [str ''dependencies'', str ''bad''],
                        custom_message = Some (str ''Must be in format ''
                                               @ quoted (str ''[@org/]name@version''))\<rparr>])\<rparr>"
    by (simp add: doc_bad_registry_def eval_defs)
  from r parse_never_invalid_dependency[OF r] show ?thesis by simp
qed

end
